theory Spec2Isabelle
  imports Main "HOL-Library.List_Lexorder" "HOL-Library.Char_ord"
begin

section \<open>Data model (src/types.ts)\<close>

text \<open>
  The channel actor is the class \<open>ChatRoom\<close> of \<open>src/durable-objects/ChatRoom.ts\<close>, the
  class that \<open>src/index.ts\<close> imports and exports. JavaScript strings are modelled as
  \<open>string\<close>: a character stands for one code unit below 256, and \<open>length\<close> is the
  \<open>.length\<close> of the source. Optional fields (\<open>field?: T\<close>) are \<open>option\<close>s, with
  \<open>None\<close> for \<open>undefined\<close>. A \<open>Record<string, string[]>\<close> is a map; the order in which
  an object lists its keys is not modelled, and neither are keys that name members
  inherited from \<open>Object.prototype\<close>.
\<close>

record user_info =
  u_uid :: string
  u_username :: string
  u_profileImage :: string

record message =
  m_id :: string
  m_channelId :: string
  m_userId :: string
  m_content :: string
  m_timestamp :: string
  m_edited :: bool
  m_editedAt :: "string option"
  m_deleted :: bool
  m_threadId :: "string option"
  m_replyTo :: "string option"
  m_attachments :: "string list"
  m_reactions :: "string \<rightharpoonup> string list"
  m_mentions :: "string list"
  m_user :: user_info

datatype member_status = Online | Offline | Away

record channel_member =
  cm_id :: string
  cm_username :: string
  cm_avatar :: string
  cm_status :: member_status

datatype ws_type =
  SendMessage | EditMessage | DeleteMessage | TypingStart | TypingStop
  | ReactionAdd | ReactionRemove | Ping | UnknownType

record ws_message =
  w_type :: ws_type
  w_content :: "string option"
  w_messageId :: "string option"
  w_threadId :: "string option"
  w_replyTo :: "string option"
  w_attachments :: "string list option"
  w_reaction :: "string option"
  w_mentions :: "string list option"

text \<open>The outbound events (\<open>WSResponse\<close>) that the modelled handlers emit.\<close>

datatype event =
  Error string
  | NewMessage message
  | MessageEdited message
  | MessageDeleted string
  | TypingStartEv string
  | TypingStopEv string
  | ReactionAdded string string string
  | ReactionRemoved string string string
  | Pong

section \<open>The actor's state and its collaborators\<close>

text \<open>
  A \<open>WebSocket\<close> is reduced to what the code reads of it: its \<open>readyState\<close>, and whether a
  call of \<open>send\<close> on it throws.
\<close>

datatype ready_state = CONNECTING | OPEN | CLOSING | CLOSED

record socket =
  readyState :: ready_state
  send_throws :: bool

text \<open>
  A row of the table \<open>messages\<close>, with the columns that the statements of the class name:
  those of the migration that declares \<open>editedAt\<close>, \<open>username\<close> and \<open>profileImage\<close>. The
  integer columns \<open>edited\<close> and \<open>deleted\<close> hold 0 or 1 and are booleans here.
\<close>

record row =
  r_id :: string
  r_channelId :: string
  r_userId :: string
  r_content :: string
  r_timestamp :: string
  r_replyTo :: "string option"
  r_threadId :: "string option"
  r_edited :: bool
  r_editedAt :: "string option"
  r_deleted :: bool
  r_username :: "string option"
  r_profileImage :: "string option"

text \<open>
  The fields of the class, in the order of the source, followed by the state that the
  class owns outside its own memory: the snapshot under the storage key \<open>messages\<close>, the
  rows of the relational store, the timers armed by \<open>setTimeout\<close> (handle and the user
  whose typing state the callback clears), and \<open>parseInt(env.MAX_MESSAGE_LENGTH)\<close>
  (\<open>None\<close> is \<open>NaN\<close>). \<open>sessions\<close> is a \<open>Map\<close>: an association list in insertion order
  whose keys are distinct.
\<close>

record chat_state =
  sessions :: "(string \<times> socket) list"
  members :: "string \<rightharpoonup> channel_member"
  messages :: "message list"
  typingUsers :: "string set"
  channelId :: string
  typingTimeouts :: "string \<rightharpoonup> nat"
  stored_messages :: "message list option"
  db_rows :: "row list"
  armed_timers :: "(nat \<times> string) set"
  max_message_length :: "int option"

text \<open>
  What the environment decides while one command runs: the value of
  \<open>crypto.randomUUID()\<close>, the value of \<open>new Date().toISOString()\<close>, whether the statement
  sent to the relational store completes (\<open>db_ok\<close>) or throws, whether
  \<open>state.storage.put\<close> completes (\<open>put_ok\<close>) or throws, and the handle that
  \<open>setTimeout\<close> returns.
\<close>

record cmd_env =
  randomUUID :: string
  now :: string
  db_ok :: bool
  put_ok :: bool
  new_timer :: nat

type_synonym sent = "string \<times> event"
type_synonym outcome = "chat_state \<times> sent list"

datatype exn = StoragePutFailed | TypeError

section \<open>Helpers of the JavaScript runtime\<close>

definition is_ws :: "char \<Rightarrow> bool" where
  "is_ws c \<longleftrightarrow> c \<in> set [CHR 0x09, CHR 0x0A, CHR 0x0B, CHR 0x0C, CHR 0x0D, CHR 0x20, CHR 0xA0]"

definition trim :: "string \<Rightarrow> string" where
  "trim s = rev (dropWhile is_ws (rev (dropWhile is_ws s)))"

text \<open>\<open>!x\<close> for an optional string: \<open>undefined\<close> and the empty string are falsy.\<close>

definition falsy :: "string option \<Rightarrow> bool" where
  "falsy x = (case x of None \<Rightarrow> True | Some s \<Rightarrow> s = [])"

text \<open>The string behind an optional string that has passed the test \<open>!x\<close>.\<close>

definition str_of :: "string option \<Rightarrow> string" where
  "str_of x = (case x of None \<Rightarrow> [] | Some s \<Rightarrow> s)"

text \<open>\<open>x || null\<close> as bound to a statement, and \<open>x ? String(x) : undefined\<close>.\<close>

definition or_null :: "string option \<Rightarrow> string option" where
  "or_null x = (if falsy x then None else x)"

text \<open>\<open>Array.prototype.findIndex\<close>; \<open>None\<close> is the result \<open>-1\<close>.\<close>

fun findIndex :: "('a \<Rightarrow> bool) \<Rightarrow> 'a list \<Rightarrow> nat option" where
  "findIndex p [] = None"
| "findIndex p (x # xs) =
     (if p x then Some 0 else map_option Suc (findIndex p xs))"

text \<open>\<open>xs.slice(-n)\<close>: the last \<open>n\<close> elements, all of them when there are fewer.\<close>

definition slice_last :: "nat \<Rightarrow> 'a list \<Rightarrow> 'a list" where
  "slice_last n xs = drop (length xs - n) xs"

text \<open>\<open>xs.splice(i, 1)\<close>.\<close>

definition splice1 :: "nat \<Rightarrow> 'a list \<Rightarrow> 'a list" where
  "splice1 i xs = take i xs @ drop (Suc i) xs"

section \<open>Delivery: sendToUser and broadcast\<close>

definition session_delete :: "string \<Rightarrow> (string \<times> socket) list \<Rightarrow> (string \<times> socket) list" where
  "session_delete u ss = filter (\<lambda>(k, ws). k \<noteq> u) ss"

definition sendToUser :: "chat_state \<Rightarrow> string \<Rightarrow> event \<Rightarrow> outcome" where
  "sendToUser st userId ev =
     (case map_of (sessions st) userId of
        None \<Rightarrow> (st, [])
      | Some ws \<Rightarrow>
          if readyState ws = OPEN then
            (if send_throws ws
             then (st\<lparr>sessions := session_delete userId (sessions st)\<rparr>, [])
             else (st, [(userId, ev)]))
          else (st, []))"

text \<open>
  The body of \<open>sessions.forEach\<close> in \<open>broadcast\<close>: an entry whose \<open>send\<close> throws is deleted
  from the map while the iteration goes on; the others are kept in place. The result is
  the map that remains and the events delivered, in the order of the iteration.
\<close>

fun broadcast_loop ::
  "event \<Rightarrow> string option \<Rightarrow> (string \<times> socket) list \<Rightarrow> (string \<times> socket) list \<times> sent list" where
  "broadcast_loop ev excl [] = ([], [])"
| "broadcast_loop ev excl ((userId, ws) # rest) =
     (let (keep, out) = broadcast_loop ev excl rest in
      if Some userId \<noteq> excl \<and> readyState ws = OPEN then
        (if send_throws ws then (keep, out)
         else ((userId, ws) # keep, (userId, ev) # out))
      else ((userId, ws) # keep, out))"

definition broadcast :: "chat_state \<Rightarrow> event \<Rightarrow> string option \<Rightarrow> outcome" where
  "broadcast st ev excludeUserId =
     (let (keep, out) = broadcast_loop ev excludeUserId (sessions st)
      in (st\<lparr>sessions := keep\<rparr>, out))"

section \<open>Typing indicators\<close>

definition clearTimeout :: "nat \<Rightarrow> (nat \<times> string) set \<Rightarrow> (nat \<times> string) set" where
  "clearTimeout h ts = {t \<in> ts. fst t \<noteq> h}"

definition handleTypingStart :: "chat_state \<Rightarrow> cmd_env \<Rightarrow> string \<Rightarrow> outcome" where
  "handleTypingStart st env userId =
     (if userId \<in> typingUsers st then (st, [])
      else
        let st1 = st\<lparr>typingUsers := insert userId (typingUsers st)\<rparr>;
            st2 = (case typingTimeouts st1 userId of
                     None \<Rightarrow> st1
                   | Some existingTimeout \<Rightarrow>
                       if existingTimeout \<noteq> 0
                       then st1\<lparr>armed_timers := clearTimeout existingTimeout (armed_timers st1)\<rparr>
                       else st1);
            st3 = st2\<lparr>armed_timers := insert (new_timer env, userId) (armed_timers st2),
                      typingTimeouts := (typingTimeouts st2)(userId \<mapsto> new_timer env)\<rparr>
        in broadcast st3 (TypingStartEv userId) (Some userId))"

definition handleTypingStop :: "chat_state \<Rightarrow> string \<Rightarrow> outcome" where
  "handleTypingStop st userId =
     (if userId \<notin> typingUsers st then (st, [])
      else
        let st1 = st\<lparr>typingUsers := typingUsers st - {userId}\<rparr>;
            st2 = (case typingTimeouts st1 userId of
                     None \<Rightarrow> st1
                   | Some timeout \<Rightarrow>
                       if timeout \<noteq> 0
                       then st1\<lparr>armed_timers := clearTimeout timeout (armed_timers st1),
                                typingTimeouts := (typingTimeouts st1)(userId := None)\<rparr>
                       else st1)
        in broadcast st2 (TypingStopEv userId) (Some userId))"

section \<open>Message mutation commands\<close>

text \<open>\<open>member?.username || 'User'\<close> and \<open>member?.avatar || ''\<close>.\<close>

definition display_name :: "chat_state \<Rightarrow> string \<Rightarrow> string" where
  "display_name st userId =
     (case members st userId of
        None \<Rightarrow> ''User''
      | Some member \<Rightarrow> if cm_username member = [] then ''User'' else cm_username member)"

definition display_avatar :: "chat_state \<Rightarrow> string \<Rightarrow> string" where
  "display_avatar st userId =
     (case members st userId of None \<Rightarrow> [] | Some member \<Rightarrow> cm_avatar member)"

text \<open>\<open>content.length > parseInt(this.env.MAX_MESSAGE_LENGTH)\<close>; false when the bound is \<open>NaN\<close>.\<close>

definition too_long :: "chat_state \<Rightarrow> string \<Rightarrow> bool" where
  "too_long st content =
     (case max_message_length st of None \<Rightarrow> False | Some n \<Rightarrow> int (length content) > n)"

definition newMessage :: "chat_state \<Rightarrow> cmd_env \<Rightarrow> ws_message \<Rightarrow> string \<Rightarrow> string \<Rightarrow> message" where
  "newMessage st env msg userId content =
     \<lparr> m_id = randomUUID env,
       m_channelId = channelId st,
       m_userId = userId,
       m_content = content,
       m_timestamp = now env,
       m_edited = False,
       m_editedAt = None,
       m_deleted = False,
       m_threadId = w_threadId msg,
       m_replyTo = w_replyTo msg,
       m_attachments = (case w_attachments msg of None \<Rightarrow> [] | Some a \<Rightarrow> a),
       m_reactions = Map.empty,
       m_mentions = (case w_mentions msg of None \<Rightarrow> [] | Some a \<Rightarrow> a),
       m_user = \<lparr> u_uid = userId,
                  u_username = display_name st userId,
                  u_profileImage = display_avatar st userId \<rparr> \<rparr>"

text \<open>The row that the \<open>INSERT\<close> of \<open>handleSendMessage\<close> adds; the columns it does not
  name take their defaults.\<close>

definition inserted_row :: "chat_state \<Rightarrow> cmd_env \<Rightarrow> ws_message \<Rightarrow> string \<Rightarrow> string \<Rightarrow> row" where
  "inserted_row st env msg userId content =
     \<lparr> r_id = randomUUID env,
       r_channelId = channelId st,
       r_userId = userId,
       r_content = content,
       r_timestamp = now env,
       r_replyTo = or_null (w_replyTo msg),
       r_threadId = or_null (w_threadId msg),
       r_edited = False,
       r_editedAt = None,
       r_deleted = False,
       r_username = Some (display_name st userId),
       r_profileImage = Some (display_avatar st userId) \<rparr>"

definition handleSendMessage :: "chat_state \<Rightarrow> cmd_env \<Rightarrow> ws_message \<Rightarrow> string \<Rightarrow> outcome" where
  "handleSendMessage st env msg userId =
     (let content = map_option trim (w_content msg) in
      if falsy content \<or> too_long st (str_of content) then
        sendToUser st userId (Error ''Message content is invalid or too long'')
      else
        let c = str_of content;
            newMsg = newMessage st env msg userId c in
        if \<not> db_ok env then
          sendToUser st userId (Error ''Failed to send message'')
        else
          let st1 = st\<lparr>db_rows := db_rows st @ [inserted_row st env msg userId c]\<rparr>;
              pushed = messages st1 @ [newMsg];
              st2 = st1\<lparr>messages :=
                      (if length pushed > 100 then slice_last 50 pushed else pushed)\<rparr> in
          if \<not> put_ok env then
            sendToUser st2 userId (Error ''Failed to send message'')
          else
            let st3 = st2\<lparr>stored_messages := Some (messages st2)\<rparr>;
                (st4, out1) = broadcast st3 (NewMessage newMsg) None;
                (st5, out2) = handleTypingStop st4 userId
            in (st5, out1 @ out2))"

text \<open>\<open>UPDATE messages SET content = ?, edited = 1, editedAt = ? WHERE id = ? AND userId = ?\<close>\<close>

definition sql_update_content :: "string \<Rightarrow> string \<Rightarrow> string \<Rightarrow> string \<Rightarrow> row list \<Rightarrow> row list" where
  "sql_update_content newContent editedAt messageId userId rows =
     map (\<lambda>r. if r_id r = messageId \<and> r_userId r = userId
               then r\<lparr>r_content := newContent, r_edited := True, r_editedAt := Some editedAt\<rparr>
               else r) rows"

text \<open>
  A handler that awaits a statement of the relational store gives up control at the
  await: the \<open>message\<close> listener is \<open>async\<close> and nothing serialises its invocations, so
  frames that arrive meanwhile are handled before the handler goes on. Such a handler is
  modelled in two parts. The first runs to the await and either finishes (a command
  turned down) or leaves what the handler holds in its local variables. The second runs
  from the await on, on the state as it is by then. (While a storage operation of the
  object is in progress the runtime delivers no other event to it, so the await of
  \<open>state.storage.put\<close> is no such point.)
\<close>

datatype 'p progress = Finished outcome | Awaiting 'p

record pending_edit =
  pe_userId :: string
  pe_messageId :: string
  pe_messageIndex :: nat
  pe_newContent :: string
  pe_editedAt :: string

definition handleEditMessage_begin ::
  "chat_state \<Rightarrow> cmd_env \<Rightarrow> ws_message \<Rightarrow> string \<Rightarrow> pending_edit progress" where
  "handleEditMessage_begin st env msg userId =
     (let messageId = w_messageId msg;
          newContent = map_option trim (w_content msg) in
      if falsy messageId \<or> falsy newContent then
        Finished (sendToUser st userId (Error ''Invalid edit request''))
      else
        let mid = str_of messageId;
            c = str_of newContent in
        case findIndex (\<lambda>m. m_id m = mid) (messages st) of
          None \<Rightarrow> Finished (sendToUser st userId (Error ''Message not found or unauthorized''))
        | Some messageIndex \<Rightarrow>
            if m_userId (messages st ! messageIndex) \<noteq> userId then
              Finished (sendToUser st userId (Error ''Message not found or unauthorized''))
            else
              Awaiting \<lparr> pe_userId = userId, pe_messageId = mid,
                         pe_messageIndex = messageIndex, pe_newContent = c,
                         pe_editedAt = now env \<rparr>)"

text \<open>
  After the await the handler writes through the index it found before it. When the
  window has become too short for that index, \<open>this.messages[messageIndex]\<close> is
  \<open>undefined\<close>, the assignment throws inside the \<open>try\<close>, and the \<open>catch\<close> reports the
  failure.
\<close>

definition handleEditMessage_resume :: "chat_state \<Rightarrow> cmd_env \<Rightarrow> pending_edit \<Rightarrow> outcome" where
  "handleEditMessage_resume st env p =
     (if \<not> db_ok env then
        sendToUser st (pe_userId p) (Error ''Failed to edit message'')
      else
        let st1 = st\<lparr>db_rows := sql_update_content (pe_newContent p) (pe_editedAt p)
                                   (pe_messageId p) (pe_userId p) (db_rows st)\<rparr>;
            messageIndex = pe_messageIndex p in
        if length (messages st1) \<le> messageIndex then
          sendToUser st1 (pe_userId p) (Error ''Failed to edit message'')
        else
          let edited = (messages st1 ! messageIndex)
                         \<lparr>m_content := pe_newContent p, m_edited := True,
                          m_editedAt := Some (pe_editedAt p)\<rparr>;
              st2 = st1\<lparr>messages := (messages st1)[messageIndex := edited]\<rparr> in
          if \<not> put_ok env then
            sendToUser st2 (pe_userId p) (Error ''Failed to edit message'')
          else
            broadcast (st2\<lparr>stored_messages := Some (messages st2)\<rparr>)
              (MessageEdited (messages st2 ! messageIndex)) None)"

text \<open>The handler when no other frame is taken up during its await.\<close>

definition handleEditMessage :: "chat_state \<Rightarrow> cmd_env \<Rightarrow> ws_message \<Rightarrow> string \<Rightarrow> outcome" where
  "handleEditMessage st env msg userId =
     (case handleEditMessage_begin st env msg userId of
        Finished res \<Rightarrow> res
      | Awaiting p \<Rightarrow> handleEditMessage_resume st env p)"

text \<open>\<open>UPDATE messages SET deleted = 1 WHERE id = ? AND userId = ?\<close>\<close>

definition sql_soft_delete :: "string \<Rightarrow> string \<Rightarrow> row list \<Rightarrow> row list" where
  "sql_soft_delete messageId userId rows =
     map (\<lambda>r. if r_id r = messageId \<and> r_userId r = userId
               then r\<lparr>r_deleted := True\<rparr> else r) rows"

record pending_delete =
  pd_userId :: string
  pd_messageId :: string
  pd_messageIndex :: nat

definition handleDeleteMessage_begin ::
  "chat_state \<Rightarrow> ws_message \<Rightarrow> string \<Rightarrow> pending_delete progress" where
  "handleDeleteMessage_begin st msg userId =
     (let messageId = w_messageId msg in
      if falsy messageId then
        Finished (sendToUser st userId (Error ''Invalid delete request''))
      else
        let mid = str_of messageId in
        case findIndex (\<lambda>m. m_id m = mid) (messages st) of
          None \<Rightarrow> Finished (sendToUser st userId (Error ''Message not found or unauthorized''))
        | Some messageIndex \<Rightarrow>
            if m_userId (messages st ! messageIndex) \<noteq> userId then
              Finished (sendToUser st userId (Error ''Message not found or unauthorized''))
            else
              Awaiting \<lparr> pd_userId = userId, pd_messageId = mid,
                         pd_messageIndex = messageIndex \<rparr>)"

text \<open>
  After the await the handler splices at the index it found before it, whatever the
  window holds there by then; \<open>splice\<close> at an index past the end removes nothing.
\<close>

definition handleDeleteMessage_resume :: "chat_state \<Rightarrow> cmd_env \<Rightarrow> pending_delete \<Rightarrow> outcome" where
  "handleDeleteMessage_resume st env p =
     (if \<not> db_ok env then
        sendToUser st (pd_userId p) (Error ''Failed to delete message'')
      else
        let st1 = st\<lparr>db_rows := sql_soft_delete (pd_messageId p) (pd_userId p) (db_rows st)\<rparr>;
            st2 = st1\<lparr>messages := splice1 (pd_messageIndex p) (messages st1)\<rparr> in
        if \<not> put_ok env then
          sendToUser st2 (pd_userId p) (Error ''Failed to delete message'')
        else
          broadcast (st2\<lparr>stored_messages := Some (messages st2)\<rparr>)
            (MessageDeleted (pd_messageId p)) None)"

text \<open>The handler when no other frame is taken up during its await.\<close>

definition handleDeleteMessage :: "chat_state \<Rightarrow> cmd_env \<Rightarrow> ws_message \<Rightarrow> string \<Rightarrow> outcome" where
  "handleDeleteMessage st env msg userId =
     (case handleDeleteMessage_begin st msg userId of
        Finished res \<Rightarrow> res
      | Awaiting p \<Rightarrow> handleDeleteMessage_resume st env p)"

text \<open>
  The two parts of \<open>handleSendMessage\<close>, which is given above for the case that no other
  frame is taken up during its await: the message and the values bound to the
  \<open>INSERT\<close> are built before the await, the push is made on the window as it is after it.
\<close>

record pending_send =
  ps_userId :: string
  ps_message :: message
  ps_row :: row

definition handleSendMessage_begin ::
  "chat_state \<Rightarrow> cmd_env \<Rightarrow> ws_message \<Rightarrow> string \<Rightarrow> pending_send progress" where
  "handleSendMessage_begin st env msg userId =
     (let content = map_option trim (w_content msg) in
      if falsy content \<or> too_long st (str_of content) then
        Finished (sendToUser st userId (Error ''Message content is invalid or too long''))
      else
        let c = str_of content in
        Awaiting \<lparr> ps_userId = userId, ps_message = newMessage st env msg userId c,
                   ps_row = inserted_row st env msg userId c \<rparr>)"

definition handleSendMessage_resume :: "chat_state \<Rightarrow> cmd_env \<Rightarrow> pending_send \<Rightarrow> outcome" where
  "handleSendMessage_resume st env p =
     (if \<not> db_ok env then
        sendToUser st (ps_userId p) (Error ''Failed to send message'')
      else
        let st1 = st\<lparr>db_rows := db_rows st @ [ps_row p]\<rparr>;
            pushed = messages st1 @ [ps_message p];
            st2 = st1\<lparr>messages :=
                    (if length pushed > 100 then slice_last 50 pushed else pushed)\<rparr> in
        if \<not> put_ok env then
          sendToUser st2 (ps_userId p) (Error ''Failed to send message'')
        else
          let st3 = st2\<lparr>stored_messages := Some (messages st2)\<rparr>;
              (st4, out1) = broadcast st3 (NewMessage (ps_message p)) None;
              (st5, out2) = handleTypingStop st4 (ps_userId p)
          in (st5, out1 @ out2))"

section \<open>Reactions\<close>

text \<open>
  The two reaction handlers have no \<open>try\<close> of their own: an exception leaves the handler,
  and \<open>Inl\<close> carries the state reached at the throw. \<open>state.storage.put\<close> throws after the
  window has been changed. The reaction map is a plain object, and \<open>m_reactions\<close> holds its
  own properties: a key that is none of them but names a member inherited from
  \<open>Object.prototype\<close> reads as that member, which is truthy and no array, so that the call
  of \<open>includes\<close> or \<open>filter\<close> on it throws a \<open>TypeError\<close> before anything is changed.
\<close>

definition inherited_key :: "string \<Rightarrow> bool" where
  "inherited_key k \<longleftrightarrow>
     k \<in> set [''constructor'', ''__proto__'', ''hasOwnProperty'', ''isPrototypeOf'',
              ''propertyIsEnumerable'', ''toLocaleString'', ''toString'', ''valueOf'',
              ''__defineGetter__'', ''__defineSetter__'', ''__lookupGetter__'',
              ''__lookupSetter__'']"

definition handleReactionAdd ::
  "chat_state \<Rightarrow> cmd_env \<Rightarrow> ws_message \<Rightarrow> string \<Rightarrow> (exn \<times> outcome) + outcome" where
  "handleReactionAdd st env msg userId =
     (if falsy (w_messageId msg) \<or> falsy (w_reaction msg) then Inr (st, [])
      else
        let messageId = str_of (w_messageId msg);
            reaction = str_of (w_reaction msg) in
        case findIndex (\<lambda>m. m_id m = messageId) (messages st) of
          None \<Rightarrow> Inr (st, [])
        | Some messageIndex \<Rightarrow>
            let m = messages st ! messageIndex in
            if m_reactions m reaction = None \<and> inherited_key reaction then
              Inl (TypeError, (st, []))
            else
            let rs1 = (if m_reactions m reaction = None
                       then (m_reactions m)(reaction \<mapsto> []) else m_reactions m);
                users = (case rs1 reaction of None \<Rightarrow> [] | Some us \<Rightarrow> us) in
            if userId \<in> set users then
              Inr (st\<lparr>messages := (messages st)[messageIndex := m\<lparr>m_reactions := rs1\<rparr>]\<rparr>, [])
            else
              let rs2 = rs1(reaction \<mapsto> users @ [userId]);
                  st1 = st\<lparr>messages := (messages st)[messageIndex := m\<lparr>m_reactions := rs2\<rparr>]\<rparr> in
              if \<not> put_ok env then Inl (StoragePutFailed, (st1, []))
              else
                Inr (broadcast (st1\<lparr>stored_messages := Some (messages st1)\<rparr>)
                       (ReactionAdded messageId reaction userId) None))"

definition handleReactionRemove ::
  "chat_state \<Rightarrow> cmd_env \<Rightarrow> ws_message \<Rightarrow> string \<Rightarrow> (exn \<times> outcome) + outcome" where
  "handleReactionRemove st env msg userId =
     (if falsy (w_messageId msg) \<or> falsy (w_reaction msg) then Inr (st, [])
      else
        let messageId = str_of (w_messageId msg);
            reaction = str_of (w_reaction msg) in
        case findIndex (\<lambda>m. m_id m = messageId) (messages st) of
          None \<Rightarrow> Inr (st, [])
        | Some messageIndex \<Rightarrow>
            let m = messages st ! messageIndex in
            (case m_reactions m reaction of
              None \<Rightarrow> (if inherited_key reaction then Inl (TypeError, (st, []))
                       else Inr (st, []))
            | Some users \<Rightarrow>
                let remaining = filter (\<lambda>id. id \<noteq> userId) users;
                    rs1 = (if remaining = [] then (m_reactions m)(reaction := None)
                           else (m_reactions m)(reaction \<mapsto> remaining));
                    st1 = st\<lparr>messages := (messages st)[messageIndex := m\<lparr>m_reactions := rs1\<rparr>]\<rparr> in
                if \<not> put_ok env then Inl (StoragePutFailed, (st1, []))
                else
                  Inr (broadcast (st1\<lparr>stored_messages := Some (messages st1)\<rparr>)
                         (ReactionRemoved messageId reaction userId) None)))"

section \<open>Command dispatch\<close>

definition handleMessage ::
  "chat_state \<Rightarrow> cmd_env \<Rightarrow> ws_message \<Rightarrow> string \<Rightarrow> (exn \<times> outcome) + outcome" where
  "handleMessage st env msg userId =
     (case w_type msg of
        SendMessage \<Rightarrow> Inr (handleSendMessage st env msg userId)
      | EditMessage \<Rightarrow> Inr (handleEditMessage st env msg userId)
      | DeleteMessage \<Rightarrow> Inr (handleDeleteMessage st env msg userId)
      | TypingStart \<Rightarrow> Inr (handleTypingStart st env userId)
      | TypingStop \<Rightarrow> Inr (handleTypingStop st userId)
      | ReactionAdd \<Rightarrow> handleReactionAdd st env msg userId
      | ReactionRemove \<Rightarrow> handleReactionRemove st env msg userId
      | Ping \<Rightarrow> Inr (sendToUser st userId Pong)
      | UnknownType \<Rightarrow> Inr (sendToUser st userId (Error ''Unknown message type'')))"

text \<open>
  The \<open>message\<close> listener that \<open>handleSession\<close> installs, for a frame that parses: an
  exception that leaves \<open>handleMessage\<close> is caught and answered with an error event.
\<close>

definition onMessage :: "chat_state \<Rightarrow> cmd_env \<Rightarrow> ws_message \<Rightarrow> string \<Rightarrow> outcome" where
  "onMessage st env msg userId =
     (case handleMessage st env msg userId of
        Inr res \<Rightarrow> res
      | Inl (e, (st1, out1)) \<Rightarrow>
          (let (st2, out2) = sendToUser st1 userId (Error ''Invalid message format'')
           in (st2, out1 @ out2)))"

section \<open>Frames that overlap\<close>

text \<open>
  The actor together with the handlers that wait at an await of the relational store
  and the events delivered so far. A step is a frame that arrives, whose handler runs to
  its await or to its end, or the return of the await of the \<open>k\<close>-th waiting handler, with
  the outcome of its statement and of its snapshot write; the statement takes effect on
  the rows when it returns.
\<close>

datatype pending =
  PendingSend pending_send | PendingEdit pending_edit | PendingDelete pending_delete

datatype step = Frame cmd_env ws_message string | Returned nat cmd_env

type_synonym actor = "chat_state \<times> pending list \<times> sent list"

definition arrive :: "chat_state \<Rightarrow> cmd_env \<Rightarrow> ws_message \<Rightarrow> string \<Rightarrow> pending progress" where
  "arrive st env msg userId =
     (case w_type msg of
        SendMessage \<Rightarrow>
          (case handleSendMessage_begin st env msg userId of
             Finished res \<Rightarrow> Finished res | Awaiting p \<Rightarrow> Awaiting (PendingSend p))
      | EditMessage \<Rightarrow>
          (case handleEditMessage_begin st env msg userId of
             Finished res \<Rightarrow> Finished res | Awaiting p \<Rightarrow> Awaiting (PendingEdit p))
      | DeleteMessage \<Rightarrow>
          (case handleDeleteMessage_begin st msg userId of
             Finished res \<Rightarrow> Finished res | Awaiting p \<Rightarrow> Awaiting (PendingDelete p))
      | _ \<Rightarrow> Finished (onMessage st env msg userId))"

fun resume :: "chat_state \<Rightarrow> cmd_env \<Rightarrow> pending \<Rightarrow> outcome" where
  "resume st env (PendingSend p) = handleSendMessage_resume st env p"
| "resume st env (PendingEdit p) = handleEditMessage_resume st env p"
| "resume st env (PendingDelete p) = handleDeleteMessage_resume st env p"

fun exec_step :: "actor \<Rightarrow> step \<Rightarrow> actor" where
  "exec_step (st, ps, log) (Frame env msg userId) =
     (case arrive st env msg userId of
        Finished (st', out) \<Rightarrow> (st', ps, log @ out)
      | Awaiting p \<Rightarrow> (st, ps @ [p], log))"
| "exec_step (st, ps, log) (Returned k env) =
     (if k < length ps then
        (let (st', out) = resume st env (ps ! k) in (st', splice1 k ps, log @ out))
      else (st, ps, log))"

definition exec :: "actor \<Rightarrow> step list \<Rightarrow> actor" where
  "exec a steps = foldl exec_step a steps"

section \<open>History fetch\<close>

text \<open>
  What \<open>parseInt\<close> returns: \<open>NaN\<close> or a number without a fraction. The store takes a
  number as the bound of \<open>LIMIT\<close> when it is a signed 64-bit integer; it rejects the
  statement otherwise, and for \<open>NaN\<close>.
\<close>

datatype js_number = NaN | Num int

definition limit_accepted :: "js_number \<Rightarrow> bool" where
  "limit_accepted n =
     (case n of NaN \<Rightarrow> False | Num i \<Rightarrow> - (2 ^ 63) \<le> i \<and> i < 2 ^ 63)"

definition limit_value :: "js_number \<Rightarrow> int" where
  "limit_value n = (case n of NaN \<Rightarrow> 0 | Num i \<Rightarrow> i)"

text \<open>\<open>LIMIT ?\<close> as the store evaluates it: a negative bound is no bound.\<close>

definition sql_limit :: "int \<Rightarrow> 'a list \<Rightarrow> 'a list" where
  "sql_limit n xs = (if n < 0 then xs else take (nat n) xs)"

text \<open>
  \<open>SELECT * FROM messages WHERE channelId = ? AND deleted = 0 [AND timestamp < ?]
  ORDER BY timestamp DESC LIMIT ?\<close>. The column \<open>timestamp\<close> is \<open>TEXT\<close>, compared as a
  string; among rows of equal timestamp the order is the store's choice, here the one
  of a stable sort.
\<close>

definition select_messages :: "row list \<Rightarrow> string \<Rightarrow> string option \<Rightarrow> int \<Rightarrow> row list" where
  "select_messages rows cid before lim =
     sql_limit lim
       (rev (sort_key r_timestamp
          (filter (\<lambda>r. r_channelId r = cid \<and> \<not> r_deleted r \<and>
                        (case before of None \<Rightarrow> True | Some b \<Rightarrow> r_timestamp r < b))
             rows)))"

definition row_to_message :: "chat_state \<Rightarrow> row \<Rightarrow> message" where
  "row_to_message st r =
     \<lparr> m_id = r_id r,
       m_channelId = r_channelId r,
       m_userId = r_userId r,
       m_content = r_content r,
       m_timestamp = r_timestamp r,
       m_edited = r_edited r,
       m_editedAt = or_null (r_editedAt r),
       m_deleted = r_deleted r,
       m_threadId = or_null (r_threadId r),
       m_replyTo = or_null (r_replyTo r),
       m_attachments = [],
       m_reactions = Map.empty,
       m_mentions = [],
       m_user = \<lparr> u_uid = r_userId r,
                  u_username = (if \<not> falsy (r_username r) then str_of (r_username r)
                                else display_name st (r_userId r)),
                  u_profileImage = (if \<not> falsy (r_profileImage r)
                                    then str_of (r_profileImage r)
                                    else display_avatar st (r_userId r)) \<rparr> \<rparr>"

text \<open>
  \<open>getMessages\<close>: \<open>limit_param\<close> is \<open>parseInt\<close> of the query parameter \<open>limit\<close>, \<open>None\<close> when
  the parameter is absent or empty (the default \<open>'50'\<close> applies); \<open>before\<close> is the query
  parameter \<open>before\<close>, ignored when absent or empty. The result is the \<open>messages\<close> array
  of the response, empty when the query throws: when the store fails (\<open>query_ok\<close> is
  false) or rejects the bound of \<open>LIMIT\<close>.
\<close>

definition getMessages ::
  "chat_state \<Rightarrow> bool \<Rightarrow> js_number option \<Rightarrow> string option \<Rightarrow> message list" where
  "getMessages st query_ok limit_param before =
     (let limit = (case limit_param of None \<Rightarrow> Num 50 | Some n \<Rightarrow> n) in
      if \<not> query_ok \<or> \<not> limit_accepted limit then []
      else map (row_to_message st)
             (rev (select_messages (db_rows st) (channelId st) (or_null before)
                     (limit_value limit))))"

section \<open>Notions used to state the properties\<close>

text \<open>A user's registered socket is open and its \<open>send\<close> does not throw.\<close>

definition session_live :: "chat_state \<Rightarrow> string \<Rightarrow> bool" where
  "session_live st userId =
     (case map_of (sessions st) userId of
        None \<Rightarrow> False
      | Some ws \<Rightarrow> readyState ws = OPEN \<and> \<not> send_throws ws)"

text \<open>The users that a broadcast reaches: every registered session that is open, is not
  the excluded user's, and whose \<open>send\<close> does not throw, in the order of the map.\<close>

definition recipients :: "string option \<Rightarrow> (string \<times> socket) list \<Rightarrow> string list" where
  "recipients excl ss =
     map fst (filter (\<lambda>(u, ws). Some u \<noteq> excl \<and> readyState ws = OPEN \<and> \<not> send_throws ws) ss)"

text \<open>The content of a command is present, non-empty after trimming and within the
  configured maximum length.\<close>

definition valid_content :: "chat_state \<Rightarrow> ws_message \<Rightarrow> bool" where
  "valid_content st msg =
     (case w_content msg of
        None \<Rightarrow> False
      | Some raw \<Rightarrow> trim raw \<noteq> [] \<and> \<not> too_long st (trim raw))"

text \<open>A \<open>send_message\<close> command that succeeds: valid content, and neither the insert nor
  the snapshot write throws.\<close>

definition send_ok :: "chat_state \<Rightarrow> cmd_env \<Rightarrow> ws_message \<Rightarrow> bool" where
  "send_ok st env msg \<longleftrightarrow>
     w_type msg = SendMessage \<and> valid_content st msg \<and> db_ok env \<and> put_ok env"

text \<open>The message object that a \<open>send_message\<close> command with valid content builds.\<close>

definition sent_message :: "chat_state \<Rightarrow> cmd_env \<Rightarrow> ws_message \<Rightarrow> string \<Rightarrow> message" where
  "sent_message st env msg userId =
     newMessage st env msg userId (trim (str_of (w_content msg)))"

text \<open>Commands processed one after the other, each to completion, by the listener.\<close>

fun run :: "chat_state \<Rightarrow> (cmd_env \<times> ws_message \<times> string) list \<Rightarrow> chat_state" where
  "run st [] = st"
| "run st ((env, msg, userId) # cmds) = run (fst (onMessage st env msg userId)) cmds"

text \<open>Two states agree on what a command reads of the actor's configuration.\<close>

definition same_config :: "chat_state \<Rightarrow> chat_state \<Rightarrow> bool" where
  "same_config st st' \<longleftrightarrow>
     channelId st' = channelId st \<and> members st' = members st \<and>
     max_message_length st' = max_message_length st"

text \<open>The window after the push and the trim of \<open>handleSendMessage\<close>, and the state after
  its insert, push, trim and snapshot write.\<close>

definition window_push :: "message list \<Rightarrow> message \<Rightarrow> message list" where
  "window_push w m =
     (let pushed = w @ [m] in if length pushed > 100 then slice_last 50 pushed else pushed)"

definition after_insert :: "chat_state \<Rightarrow> cmd_env \<Rightarrow> ws_message \<Rightarrow> string \<Rightarrow> chat_state" where
  "after_insert st env msg userId =
     st\<lparr>db_rows := db_rows st @ [inserted_row st env msg userId (trim (str_of (w_content msg)))],
        messages := window_push (messages st) (sent_message st env msg userId),
        stored_messages := Some (window_push (messages st) (sent_message st env msg userId))\<rparr>"

text \<open>Every message of the window has its row: same id, same author.\<close>

definition window_backed :: "chat_state \<Rightarrow> bool" where
  "window_backed st \<longleftrightarrow>
     (\<forall>m \<in> set (messages st). \<exists>r \<in> set (db_rows st). r_id r = m_id m \<and> r_userId r = m_userId m)"

text \<open>The required fields of an \<open>edit_message\<close> command are present and non-empty.\<close>

definition edit_fields_ok :: "ws_message \<Rightarrow> bool" where
  "edit_fields_ok msg \<longleftrightarrow>
     \<not> falsy (w_messageId msg) \<and> \<not> falsy (map_option trim (w_content msg))"

text \<open>The command names no message of the window, or the message it names (the first
  with that id) has another author.\<close>

definition not_editable :: "chat_state \<Rightarrow> ws_message \<Rightarrow> string \<Rightarrow> bool" where
  "not_editable st msg userId =
     (case w_messageId msg of
        None \<Rightarrow> True
      | Some mid \<Rightarrow>
          (case findIndex (\<lambda>m. m_id m = mid) (messages st) of
             None \<Rightarrow> True
           | Some i \<Rightarrow> m_userId (messages st ! i) \<noteq> userId))"

text \<open>The error that answers an \<open>edit_message\<close> command that is not carried out, and the
  error that answers an \<open>edit_message\<close> or \<open>delete_message\<close> command whose message is not
  in the window. Both are functions of the command alone.\<close>

definition edit_rejection :: "ws_message \<Rightarrow> event" where
  "edit_rejection msg =
     Error (if edit_fields_ok msg then ''Message not found or unauthorized''
            else ''Invalid edit request'')"

definition unknown_id_error :: "ws_message \<Rightarrow> event" where
  "unknown_id_error msg =
     (if w_type msg = EditMessage then edit_rejection msg
      else Error (if falsy (w_messageId msg) then ''Invalid delete request''
                  else ''Message not found or unauthorized''))"

text \<open>The users recorded under a reaction key of a message, none when the key is absent.\<close>

definition reactors :: "message \<Rightarrow> string \<Rightarrow> string list" where
  "reactors m k = (case m_reactions m k of None \<Rightarrow> [] | Some us \<Rightarrow> us)"

text \<open>What \<open>handleReactionAdd\<close> and \<open>handleReactionRemove\<close> do to the message they find.\<close>

definition add_reaction :: "message \<Rightarrow> string \<Rightarrow> string \<Rightarrow> message" where
  "add_reaction m k u =
     (if m_reactions m k = None \<and> inherited_key k then m
      else if u \<in> set (reactors m k) then m
      else m\<lparr>m_reactions := (m_reactions m)(k \<mapsto> reactors m k @ [u])\<rparr>)"

definition remove_reaction :: "message \<Rightarrow> string \<Rightarrow> string \<Rightarrow> message" where
  "remove_reaction m k u =
     (case m_reactions m k of
        None \<Rightarrow> m
      | Some us \<Rightarrow>
          if filter (\<lambda>x. x \<noteq> u) us = [] then m\<lparr>m_reactions := (m_reactions m)(k := None)\<rparr>
          else m\<lparr>m_reactions := (m_reactions m)(k \<mapsto> filter (\<lambda>x. x \<noteq> u) us)\<rparr>)"

text \<open>The key is an own property of the message's reaction map, or names no member
  inherited from \<open>Object.prototype\<close>: the handlers get past their reads of it.\<close>

definition key_usable :: "message \<Rightarrow> string \<Rightarrow> bool" where
  "key_usable m k \<longleftrightarrow> \<not> (m_reactions m k = None \<and> inherited_key k)"

text \<open>A reaction command names a message and a reaction key, both non-empty.\<close>

definition reaction_cmd :: "ws_message \<Rightarrow> string \<Rightarrow> string \<Rightarrow> bool" where
  "reaction_cmd cmd mid k \<longleftrightarrow>
     w_messageId cmd = Some mid \<and> mid \<noteq> [] \<and> w_reaction cmd = Some k \<and> k \<noteq> []"

text \<open>
  Invariants of the window: no reaction key of a message holds an empty list or the same
  user twice; every message has its row; the window holds at most 100 messages.
\<close>

definition wf_message :: "message \<Rightarrow> bool" where
  "wf_message m \<longleftrightarrow> (\<forall>k us. m_reactions m k = Some us \<longrightarrow> us \<noteq> [] \<and> distinct us)"

definition wf_reactions :: "message list \<Rightarrow> bool" where
  "wf_reactions ms \<longleftrightarrow> (\<forall>m \<in> set ms. wf_message m)"

definition backed_by :: "row list \<Rightarrow> message list \<Rightarrow> bool" where
  "backed_by rows ms \<longleftrightarrow>
     (\<forall>m \<in> set ms. \<exists>r \<in> set rows. r_id r = m_id m \<and> r_userId r = m_userId m)"

definition window_inv :: "chat_state \<Rightarrow> bool" where
  "window_inv st \<longleftrightarrow>
     length (messages st) \<le> 100 \<and> wf_reactions (messages st) \<and>
     backed_by (db_rows st) (messages st)"

text \<open>The ways in which one command can change the window and the rows.\<close>

inductive window_step :: "row list \<times> message list \<Rightarrow> row list \<times> message list \<Rightarrow> bool" where
  same: "window_step (rows, ms) (rows, ms)"
| sent: "r_id r = m_id m \<Longrightarrow> r_userId r = m_userId m \<Longrightarrow> m_reactions m = Map.empty \<Longrightarrow>
           window_step (rows, ms) (rows @ [r], window_push ms m)"
| edited: "i < length ms \<Longrightarrow>
           window_step (rows, ms)
             (sql_update_content c t mid u rows,
              ms[i := (ms ! i)\<lparr>m_content := c, m_edited := True, m_editedAt := Some t\<rparr>])"
| deleted: "window_step (rows, ms) (sql_soft_delete mid u rows, splice1 i ms)"
| reacted: "i < length ms \<Longrightarrow> window_step (rows, ms) (rows, ms[i := add_reaction (ms ! i) k u])"
| unreacted: "i < length ms \<Longrightarrow> window_step (rows, ms) (rows, ms[i := remove_reaction (ms ! i) k u])"

section \<open>The second copy of the class\<close>

text \<open>
  After the worker, \<open>src/index.ts\<close> holds a second copy of the class \<open>ChatRoom\<close>, which the
  worker neither imports nor exports. It differs from the class modelled above in three
  places that the properties below touch: its \<open>handleSendMessage\<close> trims with
  \<open>slice(-100)\<close>, its \<open>handleDeleteMessage\<close> sets \<open>deleted\<close> on the window entry and keeps
  it, and the query of its \<open>getMessages\<close> has no \<open>deleted = 0\<close>. The properties are
  stated for the class that the worker exports.
\<close>

definition copy2_window_push :: "message list \<Rightarrow> message \<Rightarrow> message list" where
  "copy2_window_push w m =
     (let pushed = w @ [m] in if length pushed > 100 then slice_last 100 pushed else pushed)"

definition copy2_delete_window :: "nat \<Rightarrow> message list \<Rightarrow> message list" where
  "copy2_delete_window messageIndex ms = ms[messageIndex := (ms ! messageIndex)\<lparr>m_deleted := True\<rparr>]"

definition copy2_select_messages :: "row list \<Rightarrow> string \<Rightarrow> string option \<Rightarrow> int \<Rightarrow> row list" where
  "copy2_select_messages rows cid before lim =
     sql_limit lim
       (rev (sort_key r_timestamp
          (filter (\<lambda>r. r_channelId r = cid \<and>
                        (case before of None \<Rightarrow> True | Some b \<Rightarrow> r_timestamp r < b))
             rows)))"

section \<open>Example states and commands\<close>

definition ex_socket :: socket where
  "ex_socket = \<lparr>readyState = OPEN, send_throws = False\<rparr>"

definition ex_message :: message where
  "ex_message =
     \<lparr> m_id = ''m1'', m_channelId = ''general'', m_userId = ''alice'', m_content = ''hello'',
       m_timestamp = ''2024-01-01T00:00:00.000Z'', m_edited = False, m_editedAt = None,
       m_deleted = False, m_threadId = None, m_replyTo = None, m_attachments = [],
       m_reactions = Map.empty, m_mentions = [],
       m_user = \<lparr>u_uid = ''alice'', u_username = ''User'', u_profileImage = []\<rparr> \<rparr>"

definition ex_row :: row where
  "ex_row =
     \<lparr> r_id = ''m1'', r_channelId = ''general'', r_userId = ''alice'', r_content = ''hello'',
       r_timestamp = ''2024-01-01T00:00:00.000Z'', r_replyTo = None, r_threadId = None,
       r_edited = False, r_editedAt = None, r_deleted = False,
       r_username = Some ''User'', r_profileImage = Some [] \<rparr>"

definition ex_state :: chat_state where
  "ex_state =
     \<lparr> sessions = [(''alice'', ex_socket), (''bob'', ex_socket)],
       members = Map.empty,
       messages = [ex_message],
       typingUsers = {''alice''},
       channelId = ''general'',
       typingTimeouts = [''alice'' \<mapsto> 7],
       stored_messages = Some [ex_message],
       db_rows = [ex_row],
       armed_timers = {(7, ''alice'')},
       max_message_length = Some 2000 \<rparr>"

definition ex_env :: cmd_env where
  "ex_env = \<lparr>randomUUID = ''m2'', now = ''2024-01-01T00:00:01.000Z'', db_ok = True,
              put_ok = True, new_timer = 8\<rparr>"

definition ex_cmd :: ws_message where
  "ex_cmd = \<lparr>w_type = SendMessage, w_content = None, w_messageId = None, w_threadId = None,
              w_replyTo = None, w_attachments = None, w_reaction = None, w_mentions = None\<rparr>"

definition ex_reqs :: "(cmd_env \<times> ws_message \<times> string) list" where
  "ex_reqs =
     map (\<lambda>n. (ex_env\<lparr>randomUUID := replicate (Suc n) (CHR ''m'')\<rparr>,
                ex_cmd\<lparr>w_content := Some ''hi''\<rparr>, ''alice'')) [0..<101]"

definition ex_liked :: chat_state where
  "ex_liked = ex_state\<lparr>messages := [ex_message\<lparr>m_reactions := [''like'' \<mapsto> [''bob'']]\<rparr>]\<rparr>"

definition ex_react :: ws_message where
  "ex_react = ex_cmd\<lparr>w_messageId := Some ''m1'', w_reaction := Some ''like''\<rparr>"

definition ex_rows :: "row list" where
  "ex_rows =
     [ex_row,
      ex_row\<lparr>r_id := ''m3'', r_timestamp := ''2024-01-03T00:00:00.000Z''\<rparr>,
      ex_row\<lparr>r_id := ''m2'', r_timestamp := ''2024-01-02T00:00:00.000Z'', r_deleted := True\<rparr>,
      ex_row\<lparr>r_id := ''x1'', r_channelId := ''random''\<rparr>,
      ex_row\<lparr>r_id := ''m4'', r_timestamp := ''2024-01-04T00:00:00.000Z''\<rparr>]"

section \<open>Example: three deletes that overlap\<close>

text \<open>
  A window of three messages of one author, with their rows; the three
  \<open>delete_message\<close> frames of the author arrive one behind the other, each handler
  looking its message up and reaching the await of its \<open>UPDATE\<close> before the first
  \<open>UPDATE\<close> returns; then the three awaits return in order.
\<close>

definition ex_three :: chat_state where
  "ex_three =
     ex_state\<lparr>messages := [ex_message\<lparr>m_id := ''c0''\<rparr>, ex_message\<lparr>m_id := ''c1''\<rparr>,
                             ex_message\<lparr>m_id := ''c2''\<rparr>],
               db_rows := [ex_row\<lparr>r_id := ''c0''\<rparr>, ex_row\<lparr>r_id := ''c1''\<rparr>,
                           ex_row\<lparr>r_id := ''c2''\<rparr>]\<rparr>"

definition ex_delete :: "string \<Rightarrow> ws_message" where
  "ex_delete mid = ex_cmd\<lparr>w_type := DeleteMessage, w_messageId := Some mid\<rparr>"

definition ex_overlap :: "step list" where
  "ex_overlap =
     [Frame ex_env (ex_delete ''c0'') ''alice'', Frame ex_env (ex_delete ''c1'') ''alice'',
      Frame ex_env (ex_delete ''c2'') ''alice'',
      Returned 0 ex_env, Returned 0 ex_env, Returned 0 ex_env]"

text \<open>The \<open>message_deleted\<close> events of a log, each with the user it went to.\<close>

definition deleted_events :: "sent list \<Rightarrow> (string \<times> string) list" where
  "deleted_events log =
     List.map_filter (\<lambda>(u, e). case e of MessageDeleted mid \<Rightarrow> Some (u, mid) | _ \<Rightarrow> None) log"

text \<open>The rows that the query of a history fetch matches, before \<open>LIMIT\<close> applies.\<close>

definition matching_rows :: "chat_state \<Rightarrow> string option \<Rightarrow> row list" where
  "matching_rows st before =
     filter (\<lambda>r. r_channelId r = channelId st \<and> \<not> r_deleted r \<and>
                   (case or_null before of None \<Rightarrow> True | Some b \<Rightarrow> r_timestamp r < b))
       (db_rows st)"
section \<open>Delivery lemmas\<close>

lemma sendToUser_out:
  "snd (sendToUser st u ev) = (if session_live st u then [(u, ev)] else [])"
  by (simp add: sendToUser_def session_live_def split: option.splits)

lemma sendToUser_live:
  "session_live st u \<Longrightarrow> sendToUser st u ev = (st, [(u, ev)])"
  by (auto simp: sendToUser_def session_live_def split: option.splits)

lemma sendToUser_fields:
  "sendToUser st u ev = (st', out) \<Longrightarrow>
     messages st' = messages st \<and> stored_messages st' = stored_messages st \<and>
     db_rows st' = db_rows st \<and> typingUsers st' = typingUsers st \<and>
     typingTimeouts st' = typingTimeouts st \<and> armed_timers st' = armed_timers st \<and>
     same_config st st'"
  by (auto simp: sendToUser_def same_config_def split: option.splits if_splits)

lemma broadcast_loop_out:
  "snd (broadcast_loop ev excl ss) = map (\<lambda>u. (u, ev)) (recipients excl ss)"
  by (induction ev excl ss rule: broadcast_loop.induct)
     (simp_all add: recipients_def case_prod_unfold Let_def)

lemma broadcast_loop_keep:
  "fst (broadcast_loop ev excl ss) =
     filter (\<lambda>(u, ws). \<not> (Some u \<noteq> excl \<and> readyState ws = OPEN \<and> send_throws ws)) ss"
  by (induction ev excl ss rule: broadcast_loop.induct) (simp_all add: case_prod_unfold Let_def)

lemma broadcast_out:
  "snd (broadcast st ev excl) = map (\<lambda>u. (u, ev)) (recipients excl (sessions st))"
  using broadcast_loop_out[of ev excl "sessions st"]
  by (cases "broadcast_loop ev excl (sessions st)") (simp add: broadcast_def)

lemma broadcast_fields:
  "broadcast st ev excl = (st', out) \<Longrightarrow>
     messages st' = messages st \<and> stored_messages st' = stored_messages st \<and>
     db_rows st' = db_rows st \<and> typingUsers st' = typingUsers st \<and>
     typingTimeouts st' = typingTimeouts st \<and> armed_timers st' = armed_timers st \<and>
     same_config st st'"
  by (auto simp: broadcast_def same_config_def split: prod.splits)

lemma handleTypingStop_fields:
  "handleTypingStop st u = (st', out) \<Longrightarrow>
     messages st' = messages st \<and> stored_messages st' = stored_messages st \<and>
     db_rows st' = db_rows st \<and> same_config st st'"
  by (auto simp: handleTypingStop_def broadcast_def same_config_def Let_def
           split: prod.splits option.splits if_splits)

section \<open>A successful send\<close>

lemma valid_content_unfold:
  "valid_content st msg \<Longrightarrow>
     \<not> falsy (map_option trim (w_content msg)) \<and>
     str_of (map_option trim (w_content msg)) = trim (str_of (w_content msg)) \<and>
     \<not> too_long st (trim (str_of (w_content msg)))"
  by (auto simp: valid_content_def falsy_def str_of_def split: option.splits)

lemma send_success:
  assumes "send_ok st env msg"
  shows "handleSendMessage st env msg userId =
           (let b = broadcast (after_insert st env msg userId)
                      (NewMessage (sent_message st env msg userId)) None;
                t = handleTypingStop (fst b) userId
            in (fst t, snd b @ snd t))"
proof -
  from assms have v: "valid_content st msg" and d: "db_ok env" and p: "put_ok env"
    by (simp_all add: send_ok_def)
  note u = valid_content_unfold[OF v]
  show ?thesis
    using u d p
    by (simp add: handleSendMessage_def Let_def sent_message_def window_push_def
          after_insert_def case_prod_unfold)
qed

lemma send_success_fields:
  assumes "send_ok st env msg"
  shows "messages (fst (handleSendMessage st env msg userId)) =
           window_push (messages st) (sent_message st env msg userId) \<and>
         same_config st (fst (handleSendMessage st env msg userId)) \<and>
         stored_messages (fst (handleSendMessage st env msg userId)) =
           Some (window_push (messages st) (sent_message st env msg userId)) \<and>
         db_rows (fst (handleSendMessage st env msg userId)) =
           db_rows st @ [inserted_row st env msg userId (trim (str_of (w_content msg)))]"
proof -
  define b where "b = broadcast (after_insert st env msg userId)
                      (NewMessage (sent_message st env msg userId)) None"
  define t where "t = handleTypingStop (fst b) userId"
  have h: "handleSendMessage st env msg userId = (fst t, snd b @ snd t)"
    using send_success[OF assms, of userId] by (simp add: b_def t_def Let_def)
  have bf: "messages (fst b) = messages (after_insert st env msg userId) \<and>
            stored_messages (fst b) = stored_messages (after_insert st env msg userId) \<and>
            db_rows (fst b) = db_rows (after_insert st env msg userId) \<and>
            same_config (after_insert st env msg userId) (fst b)"
    using broadcast_fields[of "after_insert st env msg userId" _ None "fst b" "snd b"]
    by (simp add: b_def)
  have tf: "messages (fst t) = messages (fst b) \<and> stored_messages (fst t) = stored_messages (fst b) \<and>
            db_rows (fst t) = db_rows (fst b) \<and> same_config (fst b) (fst t)"
    using handleTypingStop_fields[of "fst b" userId "fst t" "snd t"] by (simp add: t_def)
  show ?thesis
    using h bf tf by (simp add: after_insert_def same_config_def)
qed

lemma onMessage_send:
  "w_type msg = SendMessage \<Longrightarrow> onMessage st env msg userId = handleSendMessage st env msg userId"
  by (simp add: onMessage_def handleMessage_def)

lemma send_ok_config:
  "same_config st st' \<Longrightarrow> send_ok st' env msg = send_ok st env msg"
  by (simp add: same_config_def send_ok_def valid_content_def too_long_def
        cong: option.case_cong)

lemma sent_message_config:
  "same_config st st' \<Longrightarrow> sent_message st' env msg u = sent_message st env msg u"
  by (simp add: same_config_def sent_message_def newMessage_def display_name_def display_avatar_def)

section \<open>The window under repeated sends\<close>

lemma window_push_length:
  "length w \<le> 100 \<Longrightarrow> length (window_push w m) \<le> 100"
  by (simp add: window_push_def slice_last_def Let_def)

lemma window_push_small:
  "length w < 100 \<Longrightarrow> window_push w m = w @ [m]"
  by (simp add: window_push_def Let_def)

lemma window_push_full:
  "length w = 100 \<Longrightarrow> window_push w m = drop 51 (w @ [m])"
  by (simp add: window_push_def slice_last_def Let_def)

lemma run_sends:
  assumes "\<forall>c \<in> set reqs. send_ok st (fst c) (fst (snd c))"
  shows "messages (run st reqs) =
           foldl window_push (messages st)
             (map (\<lambda>c. sent_message st (fst c) (fst (snd c)) (snd (snd c))) reqs)"
  using assms
proof (induction reqs arbitrary: st)
  case Nil
  then show ?case by simp
next
  case (Cons c reqs)
  obtain env msg u where c: "c = (env, msg, u)" by (cases c) auto
  let ?st1 = "fst (handleSendMessage st env msg u)"
  have ok: "send_ok st env msg" using Cons.prems c by simp
  then have ty: "w_type msg = SendMessage" by (simp add: send_ok_def)
  note f = send_success_fields[OF ok, of u]
  have cfg: "same_config st ?st1" using f by simp
  have oks: "\<forall>c \<in> set reqs. send_ok ?st1 (fst c) (fst (snd c))"
    using Cons.prems by (simp add: send_ok_config[OF cfg])
  have "messages (run st (c # reqs)) = messages (run ?st1 reqs)"
    by (simp add: c onMessage_send[OF ty])
  also have "\<dots> = foldl window_push (messages ?st1)
             (map (\<lambda>c. sent_message ?st1 (fst c) (fst (snd c)) (snd (snd c))) reqs)"
    by (rule Cons.IH[OF oks])
  finally show ?case
    using f by (simp add: c sent_message_config[OF cfg])
qed

lemma foldl_window_push_small:
  "length w + length ms \<le> 100 \<Longrightarrow> foldl window_push w ms = w @ ms"
  by (induction ms arbitrary: w) (simp_all add: window_push_small)

lemma foldl_window_push_length:
  "length w \<le> 100 \<Longrightarrow> length (foldl window_push w ms) \<le> 100"
  by (induction ms arbitrary: w) (simp_all add: window_push_length)

lemma foldl_window_push_101:
  assumes "length ms = 101"
  shows "foldl window_push [] ms = drop 51 ms"
proof -
  from assms obtain ms' x where ms: "ms = ms' @ [x]" and l: "length ms' = 100"
    by (cases ms rule: rev_cases) auto
  have "foldl window_push [] ms' = ms'"
    using foldl_window_push_small[of "[]" ms'] l by simp
  then show ?thesis
    using l by (simp add: ms window_push_full)
qed

section \<open>Lookup, splice and the soft delete\<close>

lemma findIndex_Some:
  "findIndex p xs = Some i \<Longrightarrow> i < length xs \<and> p (xs ! i) \<and> (\<forall>j<i. \<not> p (xs ! j))"
proof (induction xs arbitrary: i)
  case Nil
  then show ?case by simp
next
  case (Cons x xs)
  show ?case
  proof (cases "p x")
    case True
    with Cons.prems show ?thesis by simp
  next
    case False
    with Cons.prems obtain k where k: "findIndex p xs = Some k" and i: "i = Suc k"
      by auto
    from Cons.IH[OF k] False i show ?thesis
      by (auto simp: nth_Cons split: nat.splits)
  qed
qed

lemma findIndex_None: "findIndex p xs = None \<longleftrightarrow> (\<forall>x \<in> set xs. \<not> p x)"
  by (induction xs) auto

lemma splice1_distinct:
  assumes "distinct (map f xs)" and "i < length xs"
  shows "f (xs ! i) \<notin> set (map f (splice1 i xs))"
proof -
  have xs: "xs = take i xs @ xs ! i # drop (Suc i) xs"
    using assms(2) by (rule id_take_nth_drop)
  have "distinct (map f (take i xs @ xs ! i # drop (Suc i) xs))"
    using assms(1) by (simp only: xs[symmetric])
  then show ?thesis
    by (auto simp: splice1_def)
qed

lemma splice1_length: "i < length xs \<Longrightarrow> length (splice1 i xs) + 1 = length xs"
  by (simp add: splice1_def)

lemma sql_soft_delete_ids: "map r_id (sql_soft_delete mid u rows) = map r_id rows"
  by (simp add: sql_soft_delete_def)

lemma sql_soft_delete_marks:
  assumes "r \<in> set (sql_soft_delete mid u rows)" and "r_id r = mid \<and> r_userId r = u"
  shows "r_deleted r"
proof -
  from assms(1) obtain x where
    r: "r = (if r_id x = mid \<and> r_userId x = u then x\<lparr>r_deleted := True\<rparr> else x)"
    unfolding sql_soft_delete_def set_map by (elim imageE)
  show ?thesis
  proof (cases "r_id x = mid \<and> r_userId x = u")
    case True
    with r have "r = x\<lparr>r_deleted := True\<rparr>" by simp
    then show ?thesis by simp
  next
    case False
    with r have "r = x" by simp
    with False assms(2) show ?thesis by blast
  qed
qed

lemma sql_soft_delete_present:
  assumes "r \<in> set rows" and "r_id r = mid \<and> r_userId r = u"
  shows "\<exists>r' \<in> set (sql_soft_delete mid u rows). r_id r' = mid \<and> r_userId r' = u \<and> r_deleted r'"
proof -
  have "r\<lparr>r_deleted := True\<rparr> \<in> set (sql_soft_delete mid u rows)"
    using assms by (force simp: sql_soft_delete_def)
  then show ?thesis using assms(2) by (intro bexI[of _ "r\<lparr>r_deleted := True\<rparr>"]) simp_all
qed

lemma handleDeleteMessage_unfold:
  "handleDeleteMessage st env msg userId =
     (let messageId = w_messageId msg in
      if falsy messageId then
        sendToUser st userId (Error ''Invalid delete request'')
      else
        let mid = str_of messageId in
        case findIndex (\<lambda>m. m_id m = mid) (messages st) of
          None \<Rightarrow> sendToUser st userId (Error ''Message not found or unauthorized'')
        | Some messageIndex \<Rightarrow>
            if m_userId (messages st ! messageIndex) \<noteq> userId then
              sendToUser st userId (Error ''Message not found or unauthorized'')
            else if \<not> db_ok env then
              sendToUser st userId (Error ''Failed to delete message'')
            else
              let st1 = st\<lparr>db_rows := sql_soft_delete mid userId (db_rows st)\<rparr>;
                  st2 = st1\<lparr>messages := splice1 messageIndex (messages st1)\<rparr> in
              if \<not> put_ok env then
                sendToUser st2 userId (Error ''Failed to delete message'')
              else
                broadcast (st2\<lparr>stored_messages := Some (messages st2)\<rparr>)
                  (MessageDeleted mid) None)"
  by (simp add: handleDeleteMessage_def handleDeleteMessage_begin_def
        handleDeleteMessage_resume_def Let_def split: option.splits)

lemma handleEditMessage_unfold:
  "handleEditMessage st env msg userId =
     (let messageId = w_messageId msg;
          newContent = map_option trim (w_content msg) in
      if falsy messageId \<or> falsy newContent then
        sendToUser st userId (Error ''Invalid edit request'')
      else
        let mid = str_of messageId;
            c = str_of newContent in
        case findIndex (\<lambda>m. m_id m = mid) (messages st) of
          None \<Rightarrow> sendToUser st userId (Error ''Message not found or unauthorized'')
        | Some messageIndex \<Rightarrow>
            if m_userId (messages st ! messageIndex) \<noteq> userId then
              sendToUser st userId (Error ''Message not found or unauthorized'')
            else if \<not> db_ok env then
              sendToUser st userId (Error ''Failed to edit message'')
            else
              let editedAt = now env;
                  st1 = st\<lparr>db_rows := sql_update_content c editedAt mid userId (db_rows st)\<rparr>;
                  edited = (messages st1 ! messageIndex)
                             \<lparr>m_content := c, m_edited := True, m_editedAt := Some editedAt\<rparr>;
                  st2 = st1\<lparr>messages := (messages st1)[messageIndex := edited]\<rparr> in
              if \<not> put_ok env then
                sendToUser st2 userId (Error ''Failed to edit message'')
              else
                broadcast (st2\<lparr>stored_messages := Some (messages st2)\<rparr>)
                  (MessageEdited (messages st2 ! messageIndex)) None)"
proof (cases "findIndex (\<lambda>m. m_id m = str_of (w_messageId msg)) (messages st)")
  case None
  then show ?thesis
    by (simp add: handleEditMessage_def handleEditMessage_begin_def Let_def)
next
  case (Some i)
  from findIndex_Some[OF Some] have "\<not> length (messages st) \<le> i" by simp
  then show ?thesis
    using Some
    by (simp add: handleEditMessage_def handleEditMessage_begin_def
          handleEditMessage_resume_def Let_def)
qed

lemma handleSendMessage_parts:
  "handleSendMessage st env msg userId =
     (case handleSendMessage_begin st env msg userId of
        Finished res \<Rightarrow> res
      | Awaiting p \<Rightarrow> handleSendMessage_resume st env p)"
  by (simp add: handleSendMessage_def handleSendMessage_begin_def
        handleSendMessage_resume_def Let_def)

lemma delete_success:
  assumes "w_messageId msg = Some mid" and "mid \<noteq> []"
    and "findIndex (\<lambda>m. m_id m = mid) (messages st) = Some i"
    and "m_userId (messages st ! i) = userId"
    and "db_ok env" and "put_ok env"
  shows "handleDeleteMessage st env msg userId =
           broadcast (st\<lparr>db_rows := sql_soft_delete mid userId (db_rows st),
                         messages := splice1 i (messages st),
                         stored_messages := Some (splice1 i (messages st))\<rparr>)
             (MessageDeleted mid) None"
  using assms by (simp add: handleDeleteMessage_unfold falsy_def str_of_def Let_def)

section \<open>Commands that are turned down\<close>

lemma sendToUser_summary:
  "let (st', out) = sendToUser st userId ev in
     messages st' = messages st \<and> stored_messages st' = stored_messages st \<and>
     db_rows st' = db_rows st \<and> st'\<lparr>sessions := sessions st\<rparr> = st \<and>
     length out \<le> 1 \<and> (\<forall>e \<in> set out. e = (userId, ev)) \<and>
     (session_live st userId \<longrightarrow> st' = st \<and> out = [(userId, ev)])"
  by (auto simp: sendToUser_def session_live_def split: option.splits)

lemma edit_rejected_eq:
  assumes "not_editable st msg userId"
  shows "handleEditMessage st env msg userId = sendToUser st userId (edit_rejection msg)"
proof (cases "edit_fields_ok msg")
  case False
  then show ?thesis
    by (auto simp: handleEditMessage_unfold edit_rejection_def edit_fields_ok_def Let_def)
next
  case True
  then obtain mid where mid: "w_messageId msg = Some mid"
    by (auto simp: edit_fields_ok_def falsy_def split: option.splits)
  from True have f: "\<not> falsy (w_messageId msg)" "\<not> falsy (map_option trim (w_content msg))"
    by (simp_all add: edit_fields_ok_def)
  have s: "str_of (w_messageId msg) = mid" by (simp add: mid str_of_def)
  show ?thesis
  proof (cases "findIndex (\<lambda>m. m_id m = mid) (messages st)")
    case None
    then show ?thesis
      using f True by (simp add: handleEditMessage_unfold edit_rejection_def Let_def s)
  next
    case (Some i)
    with assms mid have "m_userId (messages st ! i) \<noteq> userId"
      by (simp add: not_editable_def)
    then show ?thesis
      using f True Some by (simp add: handleEditMessage_unfold edit_rejection_def Let_def s)
  qed
qed

lemma delete_unknown_eq:
  assumes "w_messageId msg = Some mid" and "mid \<notin> set (map m_id (messages st))"
  shows "handleDeleteMessage st env msg userId = sendToUser st userId (unknown_id_error (msg\<lparr>w_type := DeleteMessage\<rparr>))"
proof -
  have n: "findIndex (\<lambda>m. m_id m = mid) (messages st) = None"
    using assms(2) by (auto simp: findIndex_None)
  show ?thesis
    using assms(1) n
    by (simp add: handleDeleteMessage_unfold unknown_id_error_def Let_def str_of_def)
qed

lemma not_editable_unknown:
  assumes "w_messageId msg = Some mid" and "mid \<notin> set (map m_id (messages st))"
  shows "not_editable st msg userId"
proof -
  have n: "findIndex (\<lambda>m. m_id m = mid) (messages st) = None"
    using assms(2) by (auto simp: findIndex_None)
  show ?thesis using assms(1) n by (simp add: not_editable_def)
qed

lemma reaction_add_unknown:
  assumes "w_messageId msg = Some mid" and "mid \<notin> set (map m_id (messages st))"
  shows "handleReactionAdd st env msg userId = Inr (st, [])"
proof -
  have n: "findIndex (\<lambda>m. m_id m = mid) (messages st) = None"
    using assms(2) by (auto simp: findIndex_None)
  show ?thesis
    using assms(1) n by (simp add: handleReactionAdd_def Let_def str_of_def)
qed

lemma reaction_remove_unknown:
  assumes "w_messageId msg = Some mid" and "mid \<notin> set (map m_id (messages st))"
  shows "handleReactionRemove st env msg userId = Inr (st, [])"
proof -
  have n: "findIndex (\<lambda>m. m_id m = mid) (messages st) = None"
    using assms(2) by (auto simp: findIndex_None)
  show ?thesis
    using assms(1) n by (simp add: handleReactionRemove_def Let_def str_of_def)
qed

section \<open>Reactions on a message of the window\<close>

lemma reaction_cmd_type [simp]:
  "reaction_cmd (cmd\<lparr>w_type := t\<rparr>) mid k = reaction_cmd cmd mid k"
  by (simp add: reaction_cmd_def)

lemma findIndex_update:
  "i < length xs \<Longrightarrow> p y = p (xs ! i) \<Longrightarrow> findIndex p (xs[i := y]) = findIndex p xs"
proof (induction xs arbitrary: i)
  case Nil
  then show ?case by simp
next
  case (Cons x xs)
  then show ?case by (cases i) simp_all
qed

lemma handleReactionAdd_noop:
  assumes "reaction_cmd cmd mid k"
    and "findIndex (\<lambda>m. m_id m = mid) (messages st) = Some i"
    and "u \<in> set (reactors (messages st ! i) k)"
  shows "handleReactionAdd st env cmd u = Inr (st, [])"
proof -
  from assms(3) obtain us where us: "m_reactions (messages st ! i) k = Some us" "u \<in> set us"
    by (cases "m_reactions (messages st ! i) k") (simp_all add: reactors_def)
  have "(messages st)[i := (messages st ! i)\<lparr>m_reactions := m_reactions (messages st ! i)\<rparr>] = messages st"
    by simp
  then show ?thesis
    using assms(1,2) us
    by (simp add: handleReactionAdd_def reaction_cmd_def falsy_def str_of_def Let_def)
qed

lemma handleReactionAdd_new:
  assumes "reaction_cmd cmd mid k"
    and "findIndex (\<lambda>m. m_id m = mid) (messages st) = Some i"
    and "u \<notin> set (reactors (messages st ! i) k)"
    and "key_usable (messages st ! i) k"
  shows "handleReactionAdd st env cmd u =
           (let st1 = st\<lparr>messages := (messages st)[i := add_reaction (messages st ! i) k u]\<rparr> in
            if \<not> put_ok env then Inl (StoragePutFailed, (st1, []))
            else Inr (broadcast (st1\<lparr>stored_messages := Some (messages st1)\<rparr>)
                        (ReactionAdded mid k u) None))"
proof (cases "m_reactions (messages st ! i) k")
  case None
  with assms(4) have "\<not> inherited_key k" by (simp add: key_usable_def)
  then show ?thesis
    using assms(1,2,3) None
    by (simp add: handleReactionAdd_def reaction_cmd_def falsy_def str_of_def Let_def
          add_reaction_def reactors_def)
next
  case (Some us)
  then show ?thesis
    using assms(1,2,3)
    by (simp add: handleReactionAdd_def reaction_cmd_def falsy_def str_of_def Let_def
          add_reaction_def reactors_def)
qed

lemma handleReactionAdd_inherited:
  assumes "reaction_cmd cmd mid k"
    and "findIndex (\<lambda>m. m_id m = mid) (messages st) = Some i"
    and "\<not> key_usable (messages st ! i) k"
  shows "handleReactionAdd st env cmd u = Inl (TypeError, (st, []))"
  using assms
  by (simp add: handleReactionAdd_def reaction_cmd_def falsy_def str_of_def Let_def
        key_usable_def)

lemma handleReactionRemove_inherited:
  assumes "reaction_cmd cmd mid k"
    and "findIndex (\<lambda>m. m_id m = mid) (messages st) = Some i"
    and "\<not> key_usable (messages st ! i) k"
  shows "handleReactionRemove st env cmd u = Inl (TypeError, (st, []))"
  using assms
  by (simp add: handleReactionRemove_def reaction_cmd_def falsy_def str_of_def Let_def
        key_usable_def)

lemma handleReactionRemove_eq:
  assumes "reaction_cmd cmd mid k"
    and "findIndex (\<lambda>m. m_id m = mid) (messages st) = Some i"
    and "m_reactions (messages st ! i) k \<noteq> None"
  shows "handleReactionRemove st env cmd u =
           (let st1 = st\<lparr>messages := (messages st)[i := remove_reaction (messages st ! i) k u]\<rparr> in
            if \<not> put_ok env then Inl (StoragePutFailed, (st1, []))
            else Inr (broadcast (st1\<lparr>stored_messages := Some (messages st1)\<rparr>)
                        (ReactionRemoved mid k u) None))"
proof -
  from assms(3) obtain us where us: "m_reactions (messages st ! i) k = Some us" by auto
  show ?thesis
    using assms(1,2) us
    by (simp add: handleReactionRemove_def reaction_cmd_def falsy_def str_of_def Let_def
          remove_reaction_def)
qed

lemma handleReactionRemove_absent:
  assumes "reaction_cmd cmd mid k"
    and "findIndex (\<lambda>m. m_id m = mid) (messages st) = Some i"
    and "m_reactions (messages st ! i) k = None"
    and "key_usable (messages st ! i) k"
  shows "handleReactionRemove st env cmd u = Inr (st, [])"
  using assms
  by (simp add: handleReactionRemove_def reaction_cmd_def falsy_def str_of_def Let_def
        key_usable_def)

lemma onMessage_inl_messages:
  "handleMessage st env msg u = Inl (e, (st1, out1)) \<Longrightarrow>
     messages (fst (onMessage st env msg u)) = messages st1"
  using sendToUser_fields[of st1 u "Error ''Invalid message format''"]
  by (cases "sendToUser st1 u (Error ''Invalid message format'')")
     (simp add: onMessage_def)

lemma onMessage_add_messages:
  assumes "reaction_cmd cmd mid k"
    and "findIndex (\<lambda>m. m_id m = mid) (messages st) = Some i"
  shows "messages (fst (onMessage st env (cmd\<lparr>w_type := ReactionAdd\<rparr>) u)) =
           (messages st)[i := add_reaction (messages st ! i) k u]"
proof (cases "key_usable (messages st ! i) k")
  case unusable: False
  have c: "reaction_cmd (cmd\<lparr>w_type := ReactionAdd\<rparr>) mid k" using assms(1) by simp
  have "handleMessage st env (cmd\<lparr>w_type := ReactionAdd\<rparr>) u = Inl (TypeError, (st, []))"
    using handleReactionAdd_inherited[OF c assms(2) unusable, of env u]
    by (simp add: handleMessage_def)
  from onMessage_inl_messages[OF this]
  have "messages (fst (onMessage st env (cmd\<lparr>w_type := ReactionAdd\<rparr>) u)) = messages st" .
  moreover have "add_reaction (messages st ! i) k u = messages st ! i"
    using unusable by (simp add: add_reaction_def key_usable_def)
  ultimately show ?thesis by simp
next
  case usable: True
  show ?thesis
  proof (cases "u \<in> set (reactors (messages st ! i) k)")
    case True
    have c: "reaction_cmd (cmd\<lparr>w_type := ReactionAdd\<rparr>) mid k" using assms(1) by simp
    have "(messages st)[i := messages st ! i] = messages st" by simp
    then show ?thesis
      using handleReactionAdd_noop[OF c assms(2) True, of env] True
      by (simp add: onMessage_def handleMessage_def add_reaction_def)
  next
    case False
    have c: "reaction_cmd (cmd\<lparr>w_type := ReactionAdd\<rparr>) mid k" using assms(1) by simp
    let ?st1 = "st\<lparr>messages := (messages st)[i := add_reaction (messages st ! i) k u]\<rparr>"
    note h = handleReactionAdd_new[OF c assms(2) False usable, of env]
    show ?thesis
    proof (cases "put_ok env")
      case True
      obtain st' out where b: "broadcast (?st1\<lparr>stored_messages := Some (messages ?st1)\<rparr>)
                          (ReactionAdded mid k u) None = (st', out)"
        by (cases "broadcast (?st1\<lparr>stored_messages := Some (messages ?st1)\<rparr>)
                          (ReactionAdded mid k u) None")
      have "handleMessage st env (cmd\<lparr>w_type := ReactionAdd\<rparr>) u = Inr (st', out)"
        using h True b by (simp add: handleMessage_def Let_def)
      then have "messages (fst (onMessage st env (cmd\<lparr>w_type := ReactionAdd\<rparr>) u)) = messages st'"
        by (simp add: onMessage_def)
      then show ?thesis using broadcast_fields[OF b] by simp
    next
      case pf: False
      have "handleMessage st env (cmd\<lparr>w_type := ReactionAdd\<rparr>) u = Inl (StoragePutFailed, (?st1, []))"
        using h pf by (simp add: handleMessage_def Let_def)
      from onMessage_inl_messages[OF this] show ?thesis by simp
    qed
  qed
qed

lemma onMessage_remove_messages:
  assumes "reaction_cmd cmd mid k"
    and "findIndex (\<lambda>m. m_id m = mid) (messages st) = Some i"
  shows "messages (fst (onMessage st env (cmd\<lparr>w_type := ReactionRemove\<rparr>) u)) =
           (messages st)[i := remove_reaction (messages st ! i) k u]"
proof (cases "m_reactions (messages st ! i) k = None")
  case True
  have c: "reaction_cmd (cmd\<lparr>w_type := ReactionRemove\<rparr>) mid k" using assms(1) by simp
  have r: "remove_reaction (messages st ! i) k u = messages st ! i"
    using True by (simp add: remove_reaction_def)
  have "messages (fst (onMessage st env (cmd\<lparr>w_type := ReactionRemove\<rparr>) u)) = messages st"
  proof (cases "key_usable (messages st ! i) k")
    case False
    have "handleMessage st env (cmd\<lparr>w_type := ReactionRemove\<rparr>) u = Inl (TypeError, (st, []))"
      using handleReactionRemove_inherited[OF c assms(2) False, of env u]
      by (simp add: handleMessage_def)
    from onMessage_inl_messages[OF this] show ?thesis .
  next
    case usable: True
    show ?thesis
      using handleReactionRemove_absent[OF c assms(2) True usable, of env u]
      by (simp add: onMessage_def handleMessage_def)
  qed
  then show ?thesis unfolding r by simp
next
  case False
  have c: "reaction_cmd (cmd\<lparr>w_type := ReactionRemove\<rparr>) mid k" using assms(1) by simp
  let ?st1 = "st\<lparr>messages := (messages st)[i := remove_reaction (messages st ! i) k u]\<rparr>"
  note h = handleReactionRemove_eq[OF c assms(2) False, of env u]
  show ?thesis
  proof (cases "put_ok env")
    case True
    obtain st' out where b: "broadcast (?st1\<lparr>stored_messages := Some (messages ?st1)\<rparr>)
                        (ReactionRemoved mid k u) None = (st', out)"
      by (cases "broadcast (?st1\<lparr>stored_messages := Some (messages ?st1)\<rparr>)
                        (ReactionRemoved mid k u) None")
    have "handleMessage st env (cmd\<lparr>w_type := ReactionRemove\<rparr>) u = Inr (st', out)"
      using h True b by (simp add: handleMessage_def Let_def)
    then have "messages (fst (onMessage st env (cmd\<lparr>w_type := ReactionRemove\<rparr>) u)) = messages st'"
      by (simp add: onMessage_def)
    then show ?thesis using broadcast_fields[OF b] by simp
  next
    case pf: False
    have "handleMessage st env (cmd\<lparr>w_type := ReactionRemove\<rparr>) u = Inl (StoragePutFailed, (?st1, []))"
      using h pf by (simp add: handleMessage_def Let_def)
    from onMessage_inl_messages[OF this] show ?thesis by simp
  qed
qed

lemma add_remove_reaction:
  assumes "u \<notin> set (reactors m k)" and "m_reactions m k \<noteq> Some []"
  shows "remove_reaction (add_reaction m k u) k u = m"
proof (cases "m_reactions m k")
  case None
  show ?thesis
  proof (cases "inherited_key k")
    case True
    then show ?thesis using None by (simp add: remove_reaction_def add_reaction_def)
  next
    case False
    have "(m_reactions m)(k := None) = m_reactions m" using None by auto
    then show ?thesis
      using None False by (simp add: remove_reaction_def add_reaction_def reactors_def)
  qed
next
  case (Some us)
  with assms have u: "u \<notin> set us" and ne: "us \<noteq> []" by (simp_all add: reactors_def)
  have f: "filter (\<lambda>x. x \<noteq> u) us = us" using u by (auto simp: filter_id_conv)
  have "(m_reactions m)(k \<mapsto> us) = m_reactions m" using Some by auto
  then show ?thesis
    using Some u ne f by (simp add: remove_reaction_def add_reaction_def reactors_def)
qed

lemma remove_reaction_gone: "u \<notin> set (reactors (remove_reaction m k u) k)"
  by (cases "m_reactions m k") (simp_all add: remove_reaction_def reactors_def)

lemma add_reaction_id [simp]: "m_id (add_reaction m k u) = m_id m"
  by (simp add: add_reaction_def)

lemma remove_reaction_id [simp]: "m_id (remove_reaction m k u) = m_id m"
  by (simp add: remove_reaction_def split: option.splits)

lemma add_reaction_member:
  "key_usable m k \<Longrightarrow> u \<in> set (reactors (add_reaction m k u) k)"
  by (auto simp: add_reaction_def reactors_def key_usable_def)

lemma add_reaction_count:
  assumes "count_list (reactors m k) u \<le> 1" and "key_usable m k"
  shows "count_list (reactors (add_reaction m k u) k) u = 1"
proof (cases "u \<in> set (reactors m k)")
  case True
  then have "count_list (reactors m k) u \<noteq> 0" by (simp add: count_list_0_iff)
  with assms(1) have "count_list (reactors m k) u = 1" by simp
  moreover have "add_reaction m k u = m" using True by (simp add: add_reaction_def)
  ultimately show ?thesis by simp
next
  case False
  then have z: "count_list (reactors m k) u = 0" by (simp add: count_list_0_iff)
  have "reactors (add_reaction m k u) k = reactors m k @ [u]"
    using False assms(2) by (auto simp: add_reaction_def reactors_def key_usable_def)
  then show ?thesis using z by simp
qed

lemma onMessage_add_noop:
  assumes "reaction_cmd cmd mid k"
    and "findIndex (\<lambda>m. m_id m = mid) (messages st) = Some i"
    and "u \<in> set (reactors (messages st ! i) k)"
  shows "onMessage st env (cmd\<lparr>w_type := ReactionAdd\<rparr>) u = (st, [])"
proof -
  have c: "reaction_cmd (cmd\<lparr>w_type := ReactionAdd\<rparr>) mid k" using assms(1) by simp
  show ?thesis
    using handleReactionAdd_noop[OF c assms(2,3), of env]
    by (simp add: onMessage_def handleMessage_def)
qed

lemma run_add_noop:
  assumes "reaction_cmd cmd mid k"
    and "findIndex (\<lambda>m. m_id m = mid) (messages st) = Some i"
    and "u \<in> set (reactors (messages st ! i) k)"
  shows "run st (map (\<lambda>e. (e, cmd\<lparr>w_type := ReactionAdd\<rparr>, u)) envs) = st"
  by (induction envs) (simp_all add: onMessage_add_noop[OF assms])

lemma after_add:
  assumes "reaction_cmd cmd mid k"
    and "findIndex (\<lambda>m. m_id m = mid) (messages st) = Some i"
  shows "findIndex (\<lambda>m. m_id m = mid)
           (messages (fst (onMessage st env (cmd\<lparr>w_type := ReactionAdd\<rparr>) u))) = Some i"
    and "messages (fst (onMessage st env (cmd\<lparr>w_type := ReactionAdd\<rparr>) u)) ! i =
           add_reaction (messages st ! i) k u"
proof -
  from findIndex_Some[OF assms(2)] have i: "i < length (messages st)" by simp
  note m = onMessage_add_messages[OF assms, of env u]
  show "findIndex (\<lambda>m. m_id m = mid)
           (messages (fst (onMessage st env (cmd\<lparr>w_type := ReactionAdd\<rparr>) u))) = Some i"
    unfolding m using findIndex_update[of i "messages st" "\<lambda>m. m_id m = mid"
        "add_reaction (messages st ! i) k u"] i assms(2) by simp
  show "messages (fst (onMessage st env (cmd\<lparr>w_type := ReactionAdd\<rparr>) u)) ! i =
           add_reaction (messages st ! i) k u"
    unfolding m using i by simp
qed

lemma add_then_remove_messages:
  assumes "reaction_cmd cmd mid k"
    and "findIndex (\<lambda>m. m_id m = mid) (messages st) = Some i"
  shows "messages (run st [(e1, cmd\<lparr>w_type := ReactionAdd\<rparr>, u),
                           (e2, cmd\<lparr>w_type := ReactionRemove\<rparr>, u)]) =
           (messages st)[i := remove_reaction (add_reaction (messages st ! i) k u) k u]"
proof -
  let ?st1 = "fst (onMessage st e1 (cmd\<lparr>w_type := ReactionAdd\<rparr>) u)"
  note a = after_add[OF assms, of e1 u]
  have "messages (fst (onMessage ?st1 e2 (cmd\<lparr>w_type := ReactionRemove\<rparr>) u)) =
          (messages ?st1)[i := remove_reaction (messages ?st1 ! i) k u]"
    by (rule onMessage_remove_messages[OF assms(1) a(1)])
  then show ?thesis
    unfolding a(2) by (simp add: onMessage_add_messages[OF assms, of e1 u])
qed

section \<open>The history query\<close>

lemma select_messages_set:
  "r \<in> set (select_messages rows cid before lim) \<Longrightarrow>
     r \<in> set rows \<and> r_channelId r = cid \<and> \<not> r_deleted r \<and>
     (case before of None \<Rightarrow> True | Some b \<Rightarrow> r_timestamp r < b)"
proof -
  assume "r \<in> set (select_messages rows cid before lim)"
  then have "r \<in> set (rev (sort_key r_timestamp
          (filter (\<lambda>r. r_channelId r = cid \<and> \<not> r_deleted r \<and>
                        (case before of None \<Rightarrow> True | Some b \<Rightarrow> r_timestamp r < b))
             rows)))"
    unfolding select_messages_def sql_limit_def by (auto split: if_splits dest: in_set_takeD)
  then show ?thesis by simp
qed

lemma select_messages_length:
  "0 \<le> lim \<Longrightarrow> length (select_messages rows cid before lim) \<le> nat lim"
  by (simp add: select_messages_def sql_limit_def)

lemma select_messages_sorted:
  "sorted (map r_timestamp (rev (select_messages rows cid before lim)))"
proof -
  let ?s = "sort_key r_timestamp
          (filter (\<lambda>r. r_channelId r = cid \<and> \<not> r_deleted r \<and>
                        (case before of None \<Rightarrow> True | Some b \<Rightarrow> r_timestamp r < b))
             rows)"
  have s: "sorted (map r_timestamp ?s)" by (rule sorted_sort_key)
  show ?thesis
  proof (cases "lim < 0")
    case True
    then show ?thesis using s by (simp add: select_messages_def sql_limit_def)
  next
    case False
    have "rev (take (nat lim) (rev ?s)) = drop (length ?s - nat lim) ?s"
      by (simp add: rev_take)
    moreover have "sorted (map r_timestamp (drop (length ?s - nat lim) ?s))"
      using s by (simp add: drop_map[symmetric] sorted_wrt_drop del: drop_map)
    ultimately show ?thesis
      using False by (simp add: select_messages_def sql_limit_def)
  qed
qed

lemma row_to_message_fields:
  "m_id (row_to_message st r) = r_id r" "m_channelId (row_to_message st r) = r_channelId r"
  "m_timestamp (row_to_message st r) = r_timestamp r" "m_deleted (row_to_message st r) = r_deleted r"
  "m_userId (row_to_message st r) = r_userId r" "m_content (row_to_message st r) = r_content r"
  by (simp_all add: row_to_message_def)

section \<open>Invariants of the window\<close>

lemma handleTypingStart_fields:
  "db_rows (fst (handleTypingStart st env u)) = db_rows st \<and>
   messages (fst (handleTypingStart st env u)) = messages st"
proof (cases "u \<in> typingUsers st")
  case True
  then show ?thesis by (simp add: handleTypingStart_def)
next
  case False
  then obtain st3 where
    h: "handleTypingStart st env u = broadcast st3 (TypingStartEv u) (Some u)"
    and f: "db_rows st3 = db_rows st" "messages st3 = messages st"
    by (auto simp: handleTypingStart_def Let_def split: option.splits)
  show ?thesis
    using broadcast_fields[of st3 "TypingStartEv u" "Some u" "fst (broadcast st3 (TypingStartEv u) (Some u))"
        "snd (broadcast st3 (TypingStartEv u) (Some u))"] h f
    by simp
qed

lemma fst_fields:
  "messages (fst (sendToUser st u ev)) = messages st"
  "db_rows (fst (sendToUser st u ev)) = db_rows st"
  "messages (fst (broadcast st ev x)) = messages st"
  "db_rows (fst (broadcast st ev x)) = db_rows st"
  "messages (fst (handleTypingStop st u)) = messages st"
  "db_rows (fst (handleTypingStop st u)) = db_rows st"
  using sendToUser_fields[of st u ev "fst (sendToUser st u ev)" "snd (sendToUser st u ev)"]
    broadcast_fields[of st ev x "fst (broadcast st ev x)" "snd (broadcast st ev x)"]
    handleTypingStop_fields[of st u "fst (handleTypingStop st u)" "snd (handleTypingStop st u)"]
  by simp_all

lemma handleSendMessage_step:
  "window_step (db_rows st, messages st)
     (db_rows (fst (handleSendMessage st env msg u)), messages (fst (handleSendMessage st env msg u)))"
proof -
  let ?c = "str_of (map_option trim (w_content msg))"
  have new: "window_step (db_rows st, messages st)
      (db_rows st @ [inserted_row st env msg u ?c],
       window_push (messages st) (newMessage st env msg u ?c))"
    by (rule window_step.sent) (simp_all add: inserted_row_def newMessage_def)
  have "db_rows (fst (handleSendMessage st env msg u)) = db_rows st \<and>
        messages (fst (handleSendMessage st env msg u)) = messages st \<or>
        db_rows (fst (handleSendMessage st env msg u)) = db_rows st @ [inserted_row st env msg u ?c] \<and>
        messages (fst (handleSendMessage st env msg u)) =
          window_push (messages st) (newMessage st env msg u ?c)"
    by (simp add: handleSendMessage_def Let_def case_prod_unfold fst_fields window_push_def)
  then show ?thesis
    using new window_step.same[of "db_rows st" "messages st"]
    by (elim disjE conjE) (simp_all only:)
qed

lemma handleEditMessage_step:
  "window_step (db_rows st, messages st)
     (db_rows (fst (handleEditMessage st env msg u)), messages (fst (handleEditMessage st env msg u)))"
proof (cases "findIndex (\<lambda>m. m_id m = str_of (w_messageId msg)) (messages st)")
  case None
  then show ?thesis
    using window_step.same[of "db_rows st" "messages st"]
    by (simp add: handleEditMessage_unfold Let_def fst_fields)
next
  case (Some i)
  from findIndex_Some[OF Some] have i: "i < length (messages st)" by simp
  show ?thesis
    using Some window_step.same[of "db_rows st" "messages st"]
      window_step.edited[OF i, of "db_rows st" "str_of (map_option trim (w_content msg))" "now env"
        "str_of (w_messageId msg)" u]
    by (simp add: handleEditMessage_unfold Let_def fst_fields)
qed

lemma handleDeleteMessage_step:
  "window_step (db_rows st, messages st)
     (db_rows (fst (handleDeleteMessage st env msg u)), messages (fst (handleDeleteMessage st env msg u)))"
proof (cases "findIndex (\<lambda>m. m_id m = str_of (w_messageId msg)) (messages st)")
  case None
  then show ?thesis
    using window_step.same[of "db_rows st" "messages st"]
    by (simp add: handleDeleteMessage_unfold Let_def fst_fields)
next
  case (Some i)
  show ?thesis
    using Some window_step.same[of "db_rows st" "messages st"]
      window_step.deleted[of "db_rows st" "messages st" "str_of (w_messageId msg)" u i]
    by (simp add: handleDeleteMessage_unfold Let_def fst_fields)
qed

lemma onMessage_reaction_step:
  assumes "w_type msg = ReactionAdd \<or> w_type msg = ReactionRemove"
  shows "window_step (db_rows st, messages st)
     (db_rows (fst (onMessage st env msg u)), messages (fst (onMessage st env msg u)))"
proof (cases "falsy (w_messageId msg) \<or> falsy (w_reaction msg)")
  case True
  then show ?thesis
    using assms window_step.same[of "db_rows st" "messages st"]
    by (auto simp: onMessage_def handleMessage_def handleReactionAdd_def handleReactionRemove_def)
next
  case False
  then obtain mid k where c: "reaction_cmd msg mid k"
    by (cases "w_messageId msg"; cases "w_reaction msg") (auto simp: reaction_cmd_def falsy_def)
  then have s: "str_of (w_messageId msg) = mid" "str_of (w_reaction msg) = k"
    by (simp_all add: reaction_cmd_def str_of_def)
  show ?thesis
  proof (cases "findIndex (\<lambda>m. m_id m = mid) (messages st)")
    case None
    then show ?thesis
      using assms False s window_step.same[of "db_rows st" "messages st"]
      by (auto simp: onMessage_def handleMessage_def handleReactionAdd_def
            handleReactionRemove_def Let_def)
  next
    case (Some i)
    from findIndex_Some[OF Some] have i: "i < length (messages st)" by simp
    have rows: "db_rows (fst (onMessage st env msg u)) = db_rows st"
      using assms False s Some
      by (auto simp: onMessage_def handleMessage_def handleReactionAdd_def
            handleReactionRemove_def Let_def case_prod_unfold fst_fields split: option.splits)
    from assms show ?thesis
    proof
      assume t: "w_type msg = ReactionAdd"
      then have m: "msg\<lparr>w_type := ReactionAdd\<rparr> = msg" by simp
      show ?thesis
        using onMessage_add_messages[OF c Some, of env u] window_step.reacted[OF i, of "db_rows st" k u]
        unfolding m rows by simp
    next
      assume t: "w_type msg = ReactionRemove"
      then have m: "msg\<lparr>w_type := ReactionRemove\<rparr> = msg" by simp
      show ?thesis
        using onMessage_remove_messages[OF c Some, of env u]
          window_step.unreacted[OF i, of "db_rows st" k u]
        unfolding m rows by simp
    qed
  qed
qed

lemma onMessage_step:
  "window_step (db_rows st, messages st)
     (db_rows (fst (onMessage st env msg u)), messages (fst (onMessage st env msg u)))"
proof (cases "w_type msg = ReactionAdd \<or> w_type msg = ReactionRemove")
  case True
  then show ?thesis by (rule onMessage_reaction_step)
next
  case False
  then show ?thesis
    using handleSendMessage_step[of st env msg u] handleEditMessage_step[of st env msg u]
      handleDeleteMessage_step[of st env msg u] handleTypingStart_fields[of st env u]
      window_step.same[of "db_rows st" "messages st"]
    by (cases "w_type msg") (simp_all add: onMessage_def handleMessage_def fst_fields)
qed

lemma wf_message_add: "wf_message m \<Longrightarrow> wf_message (add_reaction m k u)"
proof (cases "u \<in> set (reactors m k) \<or> \<not> key_usable m k")
  case True
  assume "wf_message m"
  moreover have "add_reaction m k u = m"
    using True by (auto simp: add_reaction_def key_usable_def)
  ultimately show ?thesis by simp
next
  case False
  assume w: "wf_message m"
  from False have nu: "u \<notin> set (reactors m k)" and us: "key_usable m k" by simp_all
  have a: "add_reaction m k u = m\<lparr>m_reactions := (m_reactions m)(k \<mapsto> reactors m k @ [u])\<rparr>"
    using nu us by (auto simp: add_reaction_def key_usable_def)
  have d: "reactors m k \<noteq> [] \<longrightarrow> distinct (reactors m k)"
    using w unfolding wf_message_def reactors_def by (cases "m_reactions m k") auto
  have "distinct (reactors m k)" using d by (cases "reactors m k") auto
  then have n: "distinct (reactors m k @ [u])" using nu by simp
  show ?thesis
    unfolding wf_message_def
  proof (intro allI impI)
    fix k' us
    assume b: "m_reactions (add_reaction m k u) k' = Some us"
    show "us \<noteq> [] \<and> distinct us"
    proof (cases "k' = k")
      case True
      with b have "us = reactors m k @ [u]" unfolding a by simp
      with n show ?thesis by simp
    next
      case nk: False
      with b have "m_reactions m k' = Some us" unfolding a by simp
      with w show ?thesis unfolding wf_message_def by blast
    qed
  qed
qed

lemma wf_message_remove: "wf_message m \<Longrightarrow> wf_message (remove_reaction m k u)"
proof (cases "m_reactions m k")
  case None
  assume "wf_message m"
  with None show ?thesis by (simp add: remove_reaction_def)
next
  case (Some vs)
  assume w: "wf_message m"
  from w Some have dv: "distinct vs" unfolding wf_message_def by blast
  show ?thesis
    unfolding wf_message_def
  proof (intro allI impI)
    fix k' us
    assume a: "m_reactions (remove_reaction m k u) k' = Some us"
    show "us \<noteq> [] \<and> distinct us"
    proof (cases "k' = k")
      case True
      with a Some have "filter (\<lambda>x. x \<noteq> u) vs \<noteq> [] \<and> us = filter (\<lambda>x. x \<noteq> u) vs"
        by (cases "filter (\<lambda>x. x \<noteq> u) vs = []") (simp_all add: remove_reaction_def)
      with dv show ?thesis by simp
    next
      case nk: False
      with a Some have "m_reactions m k' = Some us"
        by (cases "filter (\<lambda>x. x \<noteq> u) vs = []") (simp_all add: remove_reaction_def)
      with w show ?thesis unfolding wf_message_def by blast
    qed
  qed
qed

lemma wf_reactions_subset: "wf_reactions ms \<Longrightarrow> set ms' \<subseteq> set ms \<Longrightarrow> wf_reactions ms'"
  unfolding wf_reactions_def by blast

lemma wf_reactions_insert:
  "wf_reactions ms \<Longrightarrow> wf_message x \<Longrightarrow> set ms' \<subseteq> insert x (set ms) \<Longrightarrow> wf_reactions ms'"
  unfolding wf_reactions_def by blast

lemma window_push_set: "set (window_push ms m) \<subseteq> insert m (set ms)"
proof
  fix x assume "x \<in> set (window_push ms m)"
  then have "x \<in> set (ms @ [m])"
    unfolding window_push_def slice_last_def Let_def
    by (cases "100 < length (ms @ [m])") (auto dest: in_set_dropD)
  then show "x \<in> insert m (set ms)" by simp
qed

lemma splice1_set: "set (splice1 i ms) \<subseteq> set ms"
proof
  fix x assume "x \<in> set (splice1 i ms)"
  then have "x \<in> set (take i ms) \<or> x \<in> set (drop (Suc i) ms)" by (simp add: splice1_def)
  then show "x \<in> set ms" by (blast dest: in_set_takeD in_set_dropD)
qed

lemma backed_by_rows:
  assumes "backed_by rows ms"
    and "\<And>r. r \<in> set rows \<Longrightarrow> \<exists>r' \<in> set rows'. r_id r' = r_id r \<and> r_userId r' = r_userId r"
  shows "backed_by rows' ms"
  unfolding backed_by_def
proof
  fix m assume "m \<in> set ms"
  with assms(1) obtain r where r: "r \<in> set rows" "r_id r = m_id m" "r_userId r = m_userId m"
    unfolding backed_by_def by blast
  from assms(2)[OF r(1)] obtain r' where "r' \<in> set rows'" "r_id r' = r_id r" "r_userId r' = r_userId r"
    by blast
  with r(2,3) show "\<exists>r \<in> set rows'. r_id r = m_id m \<and> r_userId r = m_userId m"
    by (intro bexI[of _ r']) (simp_all only:)
qed

lemma backed_by_subset: "backed_by rows ms \<Longrightarrow> set ms' \<subseteq> set ms \<Longrightarrow> backed_by rows ms'"
  unfolding backed_by_def by blast

lemma backed_by_update:
  assumes "backed_by rows ms" and "i < length ms" and "m_id x = m_id (ms ! i)"
    and "m_userId x = m_userId (ms ! i)"
  shows "backed_by rows (ms[i := x])"
  unfolding backed_by_def
proof
  fix m assume "m \<in> set (ms[i := x])"
  then have "m = x \<or> m \<in> set ms" using set_update_subset_insert[of ms i x] by blast
  moreover have "ms ! i \<in> set ms" using assms(2) by simp
  ultimately obtain m0 where m0: "m0 \<in> set ms" "m_id m = m_id m0" "m_userId m = m_userId m0"
    using assms(3,4) by metis
  from assms(1) m0(1) obtain r where "r \<in> set rows" "r_id r = m_id m0" "r_userId r = m_userId m0"
    unfolding backed_by_def by blast
  then show "\<exists>r \<in> set rows. r_id r = m_id m \<and> r_userId r = m_userId m"
    unfolding m0(2,3) by blast
qed

lemma sql_update_content_keeps:
  assumes "r \<in> set rows"
  shows "\<exists>r' \<in> set (sql_update_content c t mid u rows). r_id r' = r_id r \<and> r_userId r' = r_userId r"
proof (cases "r_id r = mid \<and> r_userId r = u")
  case True
  let ?r = "r\<lparr>r_content := c, r_edited := True, r_editedAt := Some t\<rparr>"
  have "?r \<in> set (sql_update_content c t mid u rows)"
    unfolding sql_update_content_def set_map using assms True by (intro image_eqI[of _ _ r]) simp_all
  moreover have "r_id ?r = r_id r \<and> r_userId ?r = r_userId r" by simp
  ultimately show ?thesis by (rule bexI[rotated])
next
  case False
  have "(if r_id r = mid \<and> r_userId r = u
         then r\<lparr>r_content := c, r_edited := True, r_editedAt := Some t\<rparr> else r) = r"
    using False by (rule if_not_P)
  then have "r \<in> set (sql_update_content c t mid u rows)"
    unfolding sql_update_content_def set_map using assms by (intro image_eqI[of _ _ r]) simp_all
  then show ?thesis by (intro bexI[of _ r]) simp_all
qed

lemma sql_soft_delete_keeps:
  assumes "r \<in> set rows"
  shows "\<exists>r' \<in> set (sql_soft_delete mid u rows). r_id r' = r_id r \<and> r_userId r' = r_userId r"
proof (cases "r_id r = mid \<and> r_userId r = u")
  case True
  let ?r = "r\<lparr>r_deleted := True\<rparr>"
  have "?r \<in> set (sql_soft_delete mid u rows)"
    unfolding sql_soft_delete_def set_map using assms True by (intro image_eqI[of _ _ r]) simp_all
  moreover have "r_id ?r = r_id r \<and> r_userId ?r = r_userId r" by simp
  ultimately show ?thesis by (rule bexI[rotated])
next
  case False
  have "(if r_id r = mid \<and> r_userId r = u then r\<lparr>r_deleted := True\<rparr> else r) = r"
    using False by (rule if_not_P)
  then have "r \<in> set (sql_soft_delete mid u rows)"
    unfolding sql_soft_delete_def set_map using assms by (intro image_eqI[of _ _ r]) simp_all
  then show ?thesis by (intro bexI[of _ r]) simp_all
qed

lemma window_step_length:
  "window_step a b \<Longrightarrow> length (snd a) \<le> 100 \<Longrightarrow> length (snd b) \<le> 100"
proof (induction rule: window_step.induct)
  case (sent r m rows ms)
  then show ?case by (simp add: window_push_length)
next
  case (deleted rows ms mid u i)
  then show ?case by (simp add: splice1_def)
qed simp_all

lemma window_step_wf:
  "window_step a b \<Longrightarrow> wf_reactions (snd a) \<Longrightarrow> wf_reactions (snd b)"
proof (induction rule: window_step.induct)
  case (same rows ms)
  then show ?case by simp
next
  case (sent r m rows ms)
  have "wf_message m" using sent.hyps(3) by (simp add: wf_message_def)
  with sent.prems show ?case
    using wf_reactions_insert[OF _ _ window_push_set[of ms m]] by simp
next
  case (edited i ms rows c t mid u)
  then have "wf_message (ms ! i)" by (simp add: wf_reactions_def)
  then have "wf_message ((ms ! i)\<lparr>m_content := c, m_edited := True, m_editedAt := Some t\<rparr>)"
    by (simp add: wf_message_def)
  with edited.prems show ?case
    using wf_reactions_insert[OF _ _ set_update_subset_insert] by simp
next
  case (deleted rows ms mid u i)
  then show ?case using wf_reactions_subset[OF _ splice1_set[of i ms]] by simp
next
  case (reacted i ms rows k u)
  then have "wf_message (ms ! i)" by (simp add: wf_reactions_def)
  then have "wf_message (add_reaction (ms ! i) k u)" by (rule wf_message_add)
  with reacted.prems show ?case
    using wf_reactions_insert[OF _ _ set_update_subset_insert] by simp
next
  case (unreacted i ms rows k u)
  then have "wf_message (ms ! i)" by (simp add: wf_reactions_def)
  then have "wf_message (remove_reaction (ms ! i) k u)" by (rule wf_message_remove)
  with unreacted.prems show ?case
    using wf_reactions_insert[OF _ _ set_update_subset_insert] by simp
qed

lemma backed_by_push:
  assumes "backed_by rows ms" and "r_id r = m_id m" and "r_userId r = m_userId m"
  shows "backed_by (rows @ [r]) (window_push ms m)"
  unfolding backed_by_def
proof
  fix x assume "x \<in> set (window_push ms m)"
  then have "x = m \<or> x \<in> set ms" using window_push_set[of ms m] by blast
  then show "\<exists>r' \<in> set (rows @ [r]). r_id r' = m_id x \<and> r_userId r' = m_userId x"
  proof
    assume "x = m"
    then show ?thesis using assms(2,3) by (intro bexI[of _ r]) simp_all
  next
    assume "x \<in> set ms"
    with assms(1) obtain r0 where "r0 \<in> set rows" "r_id r0 = m_id x \<and> r_userId r0 = m_userId x"
      unfolding backed_by_def by blast
    then show ?thesis by (intro bexI[of _ r0]) simp_all
  qed
qed

lemma window_step_backed:
  "window_step a b \<Longrightarrow> backed_by (fst a) (snd a) \<Longrightarrow> backed_by (fst b) (snd b)"
proof (induction rule: window_step.induct)
  case (same rows ms)
  then show ?case by simp
next
  case (sent r m rows ms)
  then show ?case by (simp add: backed_by_push)
next
  case (edited i ms rows c t mid u)
  have "backed_by (sql_update_content c t mid u rows) ms"
    by (rule backed_by_rows[of rows ms]) (use edited.prems in simp, rule sql_update_content_keeps)
  then show ?case using edited.hyps by (simp add: backed_by_update)
next
  case (deleted rows ms mid u i)
  have "backed_by (sql_soft_delete mid u rows) ms"
    by (rule backed_by_rows[of rows ms]) (use deleted.prems in simp, rule sql_soft_delete_keeps)
  then show ?case using backed_by_subset[OF _ splice1_set[of i ms]] by simp
next
  case (reacted i ms rows k u)
  have "m_userId (add_reaction (ms ! i) k u) = m_userId (ms ! i)" by (simp add: add_reaction_def)
  with reacted show ?case by (simp add: backed_by_update)
next
  case (unreacted i ms rows k u)
  have "m_userId (remove_reaction (ms ! i) k u) = m_userId (ms ! i)"
    by (simp add: remove_reaction_def split: option.splits)
  with unreacted show ?case by (simp add: backed_by_update)
qed

lemma window_inv_onMessage:
  assumes "window_inv st"
  shows "window_inv (fst (onMessage st env msg u))"
proof -
  note s = onMessage_step[of st env msg u]
  from assms have a: "length (messages st) \<le> 100" "wf_reactions (messages st)"
    "backed_by (db_rows st) (messages st)"
    by (simp_all add: window_inv_def)
  have 1: "length (messages (fst (onMessage st env msg u))) \<le> 100"
    using window_step_length[OF s] a(1) by simp
  have 2: "wf_reactions (messages (fst (onMessage st env msg u)))"
    using window_step_wf[OF s] a(2) by simp
  have 3: "backed_by (db_rows (fst (onMessage st env msg u))) (messages (fst (onMessage st env msg u)))"
    using window_step_backed[OF s] a(3) by simp
  show ?thesis unfolding window_inv_def using 1 2 3 by blast
qed

lemma window_inv_run: "window_inv st \<Longrightarrow> window_inv (run st cmds)"
proof (induction cmds arbitrary: st)
  case Nil
  then show ?case by simp
next
  case (Cons c cmds)
  obtain env msg u where c: "c = (env, msg, u)" by (cases c) auto
  show ?case unfolding c run.simps
    by (rule Cons.IH) (rule window_inv_onMessage[OF Cons.prems])
qed

lemma window_inv_empty: "messages st = [] \<Longrightarrow> window_inv st"
  by (simp add: window_inv_def wf_reactions_def backed_by_def)

lemma distinct_count_list: "distinct xs \<Longrightarrow> count_list xs x \<le> 1"
  by (induction xs) (auto simp: count_list_0_iff)

lemma window_inv_reactors:
  assumes "window_inv st" and "i < length (messages st)"
  shows "count_list (reactors (messages st ! i) k) u \<le> 1"
    and "m_reactions (messages st ! i) k \<noteq> Some []"
proof -
  have w: "wf_message (messages st ! i)"
    using assms by (simp add: window_inv_def wf_reactions_def)
  show "m_reactions (messages st ! i) k \<noteq> Some []"
    using w unfolding wf_message_def by blast
  have "distinct (reactors (messages st ! i) k)"
    using w unfolding wf_message_def reactors_def by (cases "m_reactions (messages st ! i) k") auto
  then show "count_list (reactors (messages st ! i) k) u \<le> 1"
    by (rule distinct_count_list)
qed

lemma window_inv_backed: "window_inv st \<Longrightarrow> window_backed st"
  by (simp add: window_inv_def window_backed_def backed_by_def)

section \<open>Facts about the example commands\<close>

lemma trim_hi: "trim ''hi'' = ''hi''"
  by (simp add: trim_def is_ws_def)

lemma ex_live: "session_live ex_state ''alice''" "session_live ex_state ''bob''"
  by (simp_all add: session_live_def ex_state_def ex_socket_def)

lemma ex_window: "messages ex_state = [ex_message]" "m_id ex_message = ''m1''"
  "m_userId ex_message = ''alice''"
  by (simp_all add: ex_state_def ex_message_def)

lemma ex_recipients: "recipients None (sessions ex_state) = [''alice'', ''bob'']"
  by (simp add: recipients_def ex_state_def ex_socket_def)

lemma ex_send_ok: "send_ok ex_state ex_env (ex_cmd\<lparr>w_content := Some ''hi''\<rparr>)"
  by (simp add: send_ok_def valid_content_def too_long_def trim_hi ex_state_def ex_env_def
        ex_cmd_def)

lemma trim_blank: "trim ''  '' = []"
  by (simp add: trim_def is_ws_def)

lemma trim_hacked: "trim ''hacked'' = ''hacked''"
  by (simp add: trim_def is_ws_def)

lemma ex_react_cmd: "reaction_cmd ex_react ''m1'' ''like''"
  by (simp add: reaction_cmd_def ex_react_def)

lemma ex_found: "findIndex (\<lambda>m. m_id m = ''m1'') (messages ex_state) = Some 0"
  by (simp add: ex_state_def ex_message_def)

lemma ex_liked_found: "findIndex (\<lambda>m. m_id m = ''m1'') (messages ex_liked) = Some 0"
  by (simp add: ex_liked_def ex_message_def)

lemma ex_reactors: "reactors (messages ex_state ! 0) ''like'' = []"
  "m_reactions (messages ex_state ! 0) ''like'' = None"
  by (simp_all add: reactors_def ex_state_def ex_message_def)

lemma ex_liked_reactions: "m_reactions (messages ex_liked ! 0) ''like'' = Some [''bob'']"
  by (simp add: ex_liked_def)

lemma ex_fetch_ids:
  "map m_id (getMessages (ex_state\<lparr>db_rows := ex_rows\<rparr>) True (Some (Num 2)) (Some ''2024-01-04'')) =
     [''m1'', ''m3'']"
  by code_simp

section \<open>Where the second copy differs\<close>

lemma copy2_window_push_full:
  "length w = 100 \<Longrightarrow> length (copy2_window_push w m) = 100"
  by (simp add: copy2_window_push_def slice_last_def Let_def)

lemma copy2_delete_window_length: "length (copy2_delete_window i ms) = length ms"
  by (simp add: copy2_delete_window_def)

lemma copy2_select_deleted:
  "map r_id (rev (copy2_select_messages ex_rows ''general'' None 50)) =
     [''m1'', ''m2'', ''m3'', ''m4''] \<and>
   map r_id (rev (select_messages ex_rows ''general'' None 50)) = [''m1'', ''m3'', ''m4'']"
  by code_simp

section \<open>A command whose await returns before the next frame\<close>

text \<open>
  When the await of a handler returns before any other frame is taken up, the frame has
  the effect of \<open>onMessage\<close>.
\<close>

lemma exec_alone:
  "exec (st, [], log) [Frame env msg u, Returned 0 env] =
     (fst (onMessage st env msg u), [], log @ snd (onMessage st env msg u))"
proof (cases "w_type msg")
  case SendMessage
  then show ?thesis
    by (cases "handleSendMessage_begin st env msg u")
       (simp_all add: exec_def arrive_def onMessage_def handleMessage_def
          handleSendMessage_parts splice1_def case_prod_unfold Let_def)
next
  case EditMessage
  then show ?thesis
    by (cases "handleEditMessage_begin st env msg u")
       (simp_all add: exec_def arrive_def onMessage_def handleMessage_def
          handleEditMessage_def splice1_def case_prod_unfold Let_def)
next
  case DeleteMessage
  then show ?thesis
    by (cases "handleDeleteMessage_begin st msg u")
       (simp_all add: exec_def arrive_def onMessage_def handleMessage_def
          handleDeleteMessage_def splice1_def case_prod_unfold Let_def)
qed (simp_all add: exec_def arrive_def case_prod_unfold)

text \<open>
  A \<open>delete_message\<close> command from the author of a message of the window, when no other
  frame is taken up while the handler waits and the update and the snapshot write
  complete: no row is removed and every row of that id and author is marked deleted;
  the entry is spliced out of the window; the snapshot is the new window; and
  \<open>message_deleted\<close> with the id goes to every session that is open and whose \<open>send\<close>
  does not throw.
\<close>

lemma delete_alone:
  assumes "w_messageId msg = Some mid" and "mid \<noteq> []"
    and "findIndex (\<lambda>m. m_id m = mid) (messages st) = Some i"
    and "m_userId (messages st ! i) = userId"
    and "db_ok env" and "put_ok env"
  shows "let (st', out) = handleDeleteMessage st env msg userId in
           map r_id (db_rows st') = map r_id (db_rows st) \<and>
           (\<forall>r \<in> set (db_rows st'). r_id r = mid \<and> r_userId r = userId \<longrightarrow> r_deleted r) \<and>
           (window_backed st \<longrightarrow>
              (\<exists>r \<in> set (db_rows st'). r_id r = mid \<and> r_userId r = userId \<and> r_deleted r)) \<and>
           messages st' = take i (messages st) @ drop (Suc i) (messages st) \<and>
           length (messages st') + 1 = length (messages st) \<and>
           (distinct (map m_id (messages st)) \<longrightarrow> mid \<notin> set (map m_id (messages st'))) \<and>
           stored_messages st' = Some (messages st') \<and>
           out = map (\<lambda>u. (u, MessageDeleted mid)) (recipients None (sessions st))"
proof -
  let ?st2 = "st\<lparr>db_rows := sql_soft_delete mid userId (db_rows st),
                  messages := splice1 i (messages st),
                  stored_messages := Some (splice1 i (messages st))\<rparr>"
  obtain st' out where r: "broadcast ?st2 (MessageDeleted mid) None = (st', out)"
    by (cases "broadcast ?st2 (MessageDeleted mid) None")
  have eq: "handleDeleteMessage st env msg userId = (st', out)"
    using delete_success[OF assms] r by simp
  note f = broadcast_fields[OF r]
  from findIndex_Some[OF assms(3)] have i: "i < length (messages st)"
    and mi: "m_id (messages st ! i) = mid" by simp_all
  have rows: "db_rows st' = sql_soft_delete mid userId (db_rows st)" using f by simp
  have msgs: "messages st' = splice1 i (messages st)" using f by simp
  have sto: "stored_messages st' = Some (messages st')" using f by simp
  have o: "out = map (\<lambda>u. (u, MessageDeleted mid)) (recipients None (sessions st))"
    using broadcast_out[of ?st2 "MessageDeleted mid" None] r by simp
  have a: "map r_id (db_rows st') = map r_id (db_rows st)"
    by (simp add: rows sql_soft_delete_ids)
  have b: "\<forall>r \<in> set (db_rows st'). r_id r = mid \<and> r_userId r = userId \<longrightarrow> r_deleted r"
    unfolding rows using sql_soft_delete_marks by blast
  have c: "window_backed st \<longrightarrow>
              (\<exists>r \<in> set (db_rows st'). r_id r = mid \<and> r_userId r = userId \<and> r_deleted r)"
  proof
    assume "window_backed st"
    moreover have "messages st ! i \<in> set (messages st)" using i by simp
    ultimately obtain r0 where "r0 \<in> set (db_rows st)" "r_id r0 = mid \<and> r_userId r0 = userId"
      using mi assms(4) unfolding window_backed_def by metis
    then show "\<exists>r \<in> set (db_rows st'). r_id r = mid \<and> r_userId r = userId \<and> r_deleted r"
      unfolding rows by (rule sql_soft_delete_present)
  qed
  have d: "messages st' = take i (messages st) @ drop (Suc i) (messages st)"
    by (simp add: msgs splice1_def)
  have e: "length (messages st') + 1 = length (messages st)"
    unfolding msgs using i by (rule splice1_length)
  have g: "distinct (map m_id (messages st)) \<longrightarrow> mid \<notin> set (map m_id (messages st'))"
    unfolding msgs using splice1_distinct[of m_id "messages st" i] i mi by auto
  show ?thesis
    unfolding eq Let_def prod.case using a b c d e g sto o by blast
qed

lemma ex_three_in_turn:
  "map m_id (messages (run ex_three
     [(ex_env, ex_delete ''c0'', ''alice''), (ex_env, ex_delete ''c1'', ''alice''),
      (ex_env, ex_delete ''c2'', ''alice'')])) = []"
  by code_simp

section \<open>Reaction keys and repeated adds\<close>

lemma ex_constructor: "inherited_key ''constructor''" "\<not> inherited_key ''like''"
  by (simp_all add: inherited_key_def)

text \<open>
  For a key that \<open>handleReactionAdd\<close> can use and a list in which the user occurs at most
  once: after one or many adds the list holds the user exactly once, and the state after
  many adds is the state after the first.
\<close>

lemma reaction_add_repeated:
  assumes "reaction_cmd cmd mid k"
    and "findIndex (\<lambda>m. m_id m = mid) (messages st) = Some i"
    and "count_list (reactors (messages st ! i) k) userId \<le> 1"
    and "key_usable (messages st ! i) k"
  shows "(envs \<noteq> [] \<longrightarrow>
            count_list (reactors
               (messages (run st (map (\<lambda>e. (e, cmd\<lparr>w_type := ReactionAdd\<rparr>, userId)) envs)) ! i) k)
               userId = 1 \<and>
            run st (map (\<lambda>e. (e, cmd\<lparr>w_type := ReactionAdd\<rparr>, userId)) envs) =
              run st [(hd envs, cmd\<lparr>w_type := ReactionAdd\<rparr>, userId)]) \<and>
         (userId \<in> set (reactors (messages st ! i) k) \<longrightarrow>
            onMessage st e (cmd\<lparr>w_type := ReactionAdd\<rparr>) userId = (st, []))"
proof (intro conjI impI)
  assume ne: "envs \<noteq> []"
  then obtain e0 es where envs: "envs = e0 # es" by (cases envs) auto
  let ?st1 = "fst (onMessage st e0 (cmd\<lparr>w_type := ReactionAdd\<rparr>) userId)"
  note a = after_add[OF assms(1,2), of e0 userId]
  have mem: "userId \<in> set (reactors (messages ?st1 ! i) k)"
    unfolding a(2) by (rule add_reaction_member[OF assms(4)])
  have r: "run st (map (\<lambda>e. (e, cmd\<lparr>w_type := ReactionAdd\<rparr>, userId)) envs) = ?st1"
    using run_add_noop[OF assms(1) a(1) mem, of es] by (simp add: envs)
  show "count_list (reactors
               (messages (run st (map (\<lambda>e. (e, cmd\<lparr>w_type := ReactionAdd\<rparr>, userId)) envs)) ! i) k)
               userId = 1"
    unfolding r a(2) by (rule add_reaction_count[OF assms(3,4)])
  show "run st (map (\<lambda>e. (e, cmd\<lparr>w_type := ReactionAdd\<rparr>, userId)) envs) =
              run st [(hd envs, cmd\<lparr>w_type := ReactionAdd\<rparr>, userId)]"
    unfolding r by (simp add: envs)
next
  assume "userId \<in> set (reactors (messages st ! i) k)"
  then show "onMessage st e (cmd\<lparr>w_type := ReactionAdd\<rparr>) userId = (st, [])"
    by (rule onMessage_add_noop[OF assms(1,2)])
qed

section \<open>A negative bound\<close>

lemma select_messages_unbounded:
  "lim < 0 \<Longrightarrow>
     length (select_messages rows cid before lim) =
     length (filter (\<lambda>r. r_channelId r = cid \<and> \<not> r_deleted r \<and>
                           (case before of None \<Rightarrow> True | Some b \<Rightarrow> r_timestamp r < b)) rows)"
  by (simp add: select_messages_def sql_limit_def)

lemma ex_fetch_negative:
  "map m_id (getMessages (ex_state\<lparr>db_rows := ex_rows\<rparr>) True (Some (Num (- 1))) None) =
     [''m1'', ''m3'', ''m4'']"
  by code_simp

section \<open>Send: persistence failure\<close>

text \<open>
  C1. A \<open>send_message\<close> command with valid content whose durable insert throws is aborted
  before any in-memory mutation: the window, the persisted snapshot and the rows are as
  before, and so is the rest of the state, except that the sender's session is dropped
  when the error cannot be written to it. Nothing is broadcast: at most one event leaves
  the actor, the error event addressed to the sender, and exactly that one event leaves
  it when the sender's socket is open and its \<open>send\<close> does not throw.
\<close>

theorem send_insert_failure_aborts:
  assumes "valid_content st msg" and "\<not> db_ok env"
  shows "let (st', out) = handleSendMessage st env msg userId in
           messages st' = messages st \<and>
           stored_messages st' = stored_messages st \<and>
           db_rows st' = db_rows st \<and>
           st'\<lparr>sessions := sessions st\<rparr> = st \<and>
           length out \<le> 1 \<and>
           (\<forall>e \<in> set out. e = (userId, Error ''Failed to send message'')) \<and>
           (session_live st userId \<longrightarrow>
              st' = st \<and> out = [(userId, Error ''Failed to send message'')])"
proof -
  have eq: "handleSendMessage st env msg userId =
              sendToUser st userId (Error ''Failed to send message'')"
    using assms
    by (auto simp: handleSendMessage_def valid_content_def falsy_def str_of_def Let_def
             split: option.splits)
  obtain st' out where r: "sendToUser st userId (Error ''Failed to send message'') = (st', out)"
    by (cases "sendToUser st userId (Error ''Failed to send message'')")
  have s: "st'\<lparr>sessions := sessions st\<rparr> = st"
    using r by (auto simp: sendToUser_def split: option.splits if_splits)
  have o: "out = (if session_live st userId then [(userId, Error ''Failed to send message'')] else [])"
    using sendToUser_out[of st userId "Error ''Failed to send message''"] r by simp
  have l: "session_live st userId \<longrightarrow> st' = st"
    using sendToUser_live[of st userId "Error ''Failed to send message''"] r by auto
  have m: "messages st' = messages st" "stored_messages st' = stored_messages st"
    "db_rows st' = db_rows st"
    using sendToUser_fields[OF r] by simp_all
  show ?thesis
    unfolding eq r using s o l m by simp
qed

theorem send_insert_failure_aborts_witness:
  "valid_content ex_state (ex_cmd\<lparr>w_content := Some ''hi''\<rparr>) \<and>
   \<not> db_ok (ex_env\<lparr>db_ok := False\<rparr>) \<and>
   session_live ex_state ''alice'' \<and>
   handleSendMessage ex_state (ex_env\<lparr>db_ok := False\<rparr>) (ex_cmd\<lparr>w_content := Some ''hi''\<rparr>) ''alice''
     = (ex_state, [(''alice'', Error ''Failed to send message'')])"
proof -
  have v: "valid_content ex_state (ex_cmd\<lparr>w_content := Some ''hi''\<rparr>)"
    by (simp add: valid_content_def too_long_def trim_hi ex_state_def ex_cmd_def)
  have d: "\<not> db_ok (ex_env\<lparr>db_ok := False\<rparr>)" by simp
  have l: "session_live ex_state ''alice''"
    by (simp add: session_live_def ex_state_def ex_socket_def)
  obtain st' out where
    r: "handleSendMessage ex_state (ex_env\<lparr>db_ok := False\<rparr>)
          (ex_cmd\<lparr>w_content := Some ''hi''\<rparr>) ''alice'' = (st', out)"
    by (cases "handleSendMessage ex_state (ex_env\<lparr>db_ok := False\<rparr>)
          (ex_cmd\<lparr>w_content := Some ''hi''\<rparr>) ''alice''")
  have "session_live ex_state ''alice'' \<longrightarrow>
          st' = ex_state \<and> out = [(''alice'', Error ''Failed to send message'')]"
    using send_insert_failure_aborts[OF v d, of "''alice''"] unfolding r Let_def prod.case
    by blast
  with l have "(st', out) = (ex_state, [(''alice'', Error ''Failed to send message'')])"
    by simp
  with v d l r show ?thesis by simp
qed

section \<open>Send: the window's cap\<close>

text \<open>
  C2. A successful \<open>send_message\<close> appends the new message to the window; when that makes
  the window longer than 100, the window is cut back to exactly its 50 most recent
  messages. A window of at most 100 messages therefore never holds more than 101, and
  holds at most 100 once the command is done. After 101 successful sends in sequence
  into an empty window, the window holds the 50 most recent of the 101 messages.
\<close>

theorem send_window_hysteresis:
  "(send_ok st env msg \<longrightarrow>
      (let pushed = messages st @ [sent_message st env msg userId];
           st' = fst (onMessage st env msg userId) in
       (length pushed > 100 \<longrightarrow>
          messages st' = drop (length pushed - 50) pushed \<and> length (messages st') = 50) \<and>
       (length pushed \<le> 100 \<longrightarrow> messages st' = pushed) \<and>
       (length (messages st) \<le> 100 \<longrightarrow>
          length pushed \<le> 101 \<and> length (messages st') \<le> 100))) \<and>
   ((\<forall>c \<in> set reqs. send_ok st0 (fst c) (fst (snd c))) \<and> messages st0 = [] \<and>
      length reqs = 101 \<longrightarrow>
      messages (run st0 reqs) =
        drop 51 (map (\<lambda>c. sent_message st0 (fst c) (fst (snd c)) (snd (snd c))) reqs) \<and>
      length (messages (run st0 reqs)) = 50 \<and>
      (\<forall>k. length (messages (run st0 (take k reqs))) \<le> 100))"
proof (intro conjI impI)
  assume ok: "send_ok st env msg"
  then have ty: "w_type msg = SendMessage" by (simp add: send_ok_def)
  have m: "messages (fst (onMessage st env msg userId)) =
             window_push (messages st) (sent_message st env msg userId)"
    using send_success_fields[OF ok, of userId] by (simp add: onMessage_send[OF ty])
  show "let pushed = messages st @ [sent_message st env msg userId];
           st' = fst (onMessage st env msg userId) in
       (length pushed > 100 \<longrightarrow>
          messages st' = drop (length pushed - 50) pushed \<and> length (messages st') = 50) \<and>
       (length pushed \<le> 100 \<longrightarrow> messages st' = pushed) \<and>
       (length (messages st) \<le> 100 \<longrightarrow>
          length pushed \<le> 101 \<and> length (messages st') \<le> 100)"
    unfolding Let_def m by (simp add: window_push_def slice_last_def Let_def)
next
  assume h: "(\<forall>c \<in> set reqs. send_ok st0 (fst c) (fst (snd c))) \<and> messages st0 = [] \<and>
      length reqs = 101"
  let ?ms = "map (\<lambda>c. sent_message st0 (fst c) (fst (snd c)) (snd (snd c))) reqs"
  have r: "messages (run st0 reqs) = foldl window_push [] ?ms"
    using run_sends[of reqs st0] h by simp
  show a: "messages (run st0 reqs) = drop 51 ?ms"
    using r foldl_window_push_101[of ?ms] h by simp
  show "length (messages (run st0 reqs)) = 50"
    using a h by simp
  show "\<forall>k. length (messages (run st0 (take k reqs))) \<le> 100"
  proof
    fix k
    have "\<forall>c \<in> set (take k reqs). send_ok st0 (fst c) (fst (snd c))"
      using h by (meson in_set_takeD)
    then show "length (messages (run st0 (take k reqs))) \<le> 100"
      using run_sends[of "take k reqs" st0] h foldl_window_push_length[of "[]"] by simp
  qed
qed

theorem send_window_hysteresis_witness:
  "send_ok ex_state ex_env (ex_cmd\<lparr>w_content := Some ''hi''\<rparr>) \<and>
   messages (fst (onMessage ex_state ex_env (ex_cmd\<lparr>w_content := Some ''hi''\<rparr>) ''alice'')) =
     [ex_message, sent_message ex_state ex_env (ex_cmd\<lparr>w_content := Some ''hi''\<rparr>) ''alice''] \<and>
   list_all (\<lambda>c. send_ok (ex_state\<lparr>messages := []\<rparr>) (fst c) (fst (snd c))) ex_reqs \<and>
   length ex_reqs = 101 \<and>
   length (messages (run (ex_state\<lparr>messages := []\<rparr>) ex_reqs)) = 50"
proof -
  have ok: "send_ok ex_state ex_env (ex_cmd\<lparr>w_content := Some ''hi''\<rparr>)"
    by (simp add: send_ok_def valid_content_def too_long_def trim_hi ex_state_def ex_env_def
          ex_cmd_def)
  have oks: "\<forall>c \<in> set ex_reqs. send_ok (ex_state\<lparr>messages := []\<rparr>) (fst c) (fst (snd c))"
    by (simp add: ex_reqs_def send_ok_def valid_content_def too_long_def trim_hi ex_state_def
          ex_env_def ex_cmd_def)
  have len: "length ex_reqs = 101" by (simp add: ex_reqs_def)
  have e: "messages (ex_state\<lparr>messages := []\<rparr>) = []" by simp
  have l1: "length (messages ex_state) = 1" by (simp add: ex_state_def)
  note t = send_window_hysteresis[of ex_state ex_env "ex_cmd\<lparr>w_content := Some ''hi''\<rparr>" "''alice''"
              ex_reqs "ex_state\<lparr>messages := []\<rparr>"]
  from t ok l1 have
    "messages (fst (onMessage ex_state ex_env (ex_cmd\<lparr>w_content := Some ''hi''\<rparr>) ''alice'')) =
       messages ex_state @ [sent_message ex_state ex_env (ex_cmd\<lparr>w_content := Some ''hi''\<rparr>) ''alice'']"
    by (simp add: Let_def)
  moreover from t oks len e have "length (messages (run (ex_state\<lparr>messages := []\<rparr>) ex_reqs)) = 50"
    by blast
  ultimately show ?thesis using ok oks len by (simp add: ex_state_def list_all_iff)
qed

section \<open>Typing indicators\<close>

text \<open>
  C9. A \<open>typing_start\<close> command from a user who is already typing is a no-op: the whole
  state is returned as it was (the typing-user set, the timer map and the armed timers
  among it, so the existing timer is neither refreshed nor replaced), and no event is
  emitted.
\<close>

theorem typing_start_while_typing_is_noop:
  "userId \<in> typingUsers st \<Longrightarrow>
     handleTypingStart st env userId = (st, []) \<and>
     onMessage st env (msg\<lparr>w_type := TypingStart\<rparr>) userId = (st, [])"
  by (simp add: handleTypingStart_def onMessage_def handleMessage_def)

theorem typing_start_while_typing_is_noop_witness:
  "''alice'' \<in> typingUsers ex_state \<and>
   handleTypingStart ex_state ex_env ''alice'' = (ex_state, []) \<and>
   onMessage ex_state ex_env (ex_cmd\<lparr>w_type := TypingStart\<rparr>) ''alice'' = (ex_state, [])"
proof -
  have t: "''alice'' \<in> typingUsers ex_state" by (simp add: ex_state_def)
  show ?thesis
    using typing_start_while_typing_is_noop[OF t, of ex_env ex_cmd] t by simp
qed

section \<open>Send: the echo\<close>

text \<open>
  C10. A successful \<open>send_message\<close> broadcasts \<open>new_message\<close> with no excluded user: the
  events it emits start with one \<open>new_message\<close> for every registered session that is
  open and whose \<open>send\<close> does not throw, in the order of the registry, and the sender's own
  session is among them.
\<close>

theorem send_broadcast_includes_sender:
  assumes "send_ok st env msg"
  shows "let out = snd (onMessage st env msg userId);
             ev = NewMessage (sent_message st env msg userId);
             rs = recipients None (sessions st) in
           take (length rs) out = map (\<lambda>u. (u, ev)) rs \<and>
           (\<forall>(u, ws) \<in> set (sessions st).
              readyState ws = OPEN \<and> \<not> send_throws ws \<longrightarrow> (u, ev) \<in> set out) \<and>
           (session_live st userId \<longrightarrow> (userId, ev) \<in> set out)"
proof -
  let ?ev = "NewMessage (sent_message st env msg userId)"
  let ?rs = "recipients None (sessions st)"
  define b where "b = broadcast (after_insert st env msg userId) ?ev None"
  define t where "t = handleTypingStop (fst b) userId"
  from assms have ty: "w_type msg = SendMessage" by (simp add: send_ok_def)
  have out: "snd (onMessage st env msg userId) = snd b @ snd t"
    using send_success[OF assms, of userId]
    by (simp add: onMessage_send[OF ty] b_def t_def Let_def)
  have sb: "snd b = map (\<lambda>u. (u, ?ev)) ?rs"
    unfolding b_def by (simp add: broadcast_out after_insert_def)
  have 1: "take (length ?rs) (snd (onMessage st env msg userId)) = map (\<lambda>u. (u, ?ev)) ?rs"
    by (simp add: out sb)
  have mem: "\<And>u. u \<in> set ?rs \<Longrightarrow> (u, ?ev) \<in> set (snd (onMessage st env msg userId))"
    by (simp add: out sb)
  have 2: "\<forall>(u, ws) \<in> set (sessions st).
              readyState ws = OPEN \<and> \<not> send_throws ws \<longrightarrow>
              (u, ?ev) \<in> set (snd (onMessage st env msg userId))"
  proof (clarify)
    fix u ws
    assume "(u, ws) \<in> set (sessions st)" "readyState ws = OPEN" "\<not> send_throws ws"
    then have "u \<in> set ?rs" by (force simp: recipients_def)
    then show "(u, ?ev) \<in> set (snd (onMessage st env msg userId))" by (rule mem)
  qed
  have 3: "session_live st userId \<longrightarrow> (userId, ?ev) \<in> set (snd (onMessage st env msg userId))"
  proof
    assume "session_live st userId"
    then obtain ws where "map_of (sessions st) userId = Some ws" "readyState ws = OPEN"
      "\<not> send_throws ws"
      by (auto simp: session_live_def split: option.splits)
    then have "(userId, ws) \<in> set (sessions st)" by (simp add: map_of_SomeD)
    with 2 \<open>readyState ws = OPEN\<close> \<open>\<not> send_throws ws\<close>
    show "(userId, ?ev) \<in> set (snd (onMessage st env msg userId))" by blast
  qed
  show ?thesis unfolding Let_def using 1 2 3 by blast
qed

theorem send_broadcast_includes_sender_witness:
  "send_ok ex_state ex_env (ex_cmd\<lparr>w_content := Some ''hi''\<rparr>) \<and>
   session_live ex_state ''alice'' \<and>
   (''alice'', NewMessage (sent_message ex_state ex_env (ex_cmd\<lparr>w_content := Some ''hi''\<rparr>) ''alice''))
     \<in> set (snd (onMessage ex_state ex_env (ex_cmd\<lparr>w_content := Some ''hi''\<rparr>) ''alice'')) \<and>
   take 2 (snd (onMessage ex_state ex_env (ex_cmd\<lparr>w_content := Some ''hi''\<rparr>) ''alice'')) =
     [(''alice'', NewMessage (sent_message ex_state ex_env (ex_cmd\<lparr>w_content := Some ''hi''\<rparr>) ''alice'')),
      (''bob'', NewMessage (sent_message ex_state ex_env (ex_cmd\<lparr>w_content := Some ''hi''\<rparr>) ''alice''))]"
proof -
  note t = send_broadcast_includes_sender[OF ex_send_ok, of "''alice''"]
  have a: "(''alice'', NewMessage (sent_message ex_state ex_env (ex_cmd\<lparr>w_content := Some ''hi''\<rparr>) ''alice''))
     \<in> set (snd (onMessage ex_state ex_env (ex_cmd\<lparr>w_content := Some ''hi''\<rparr>) ''alice''))"
    using t ex_live(1) unfolding Let_def by blast
  have b: "take (length (recipients None (sessions ex_state)))
             (snd (onMessage ex_state ex_env (ex_cmd\<lparr>w_content := Some ''hi''\<rparr>) ''alice'')) =
           map (\<lambda>u. (u, NewMessage (sent_message ex_state ex_env (ex_cmd\<lparr>w_content := Some ''hi''\<rparr>) ''alice'')))
             (recipients None (sessions ex_state))"
    using t unfolding Let_def by blast
  have l: "length (recipients None (sessions ex_state)) = 2" by (simp add: ex_recipients)
  have c: "take 2 (snd (onMessage ex_state ex_env (ex_cmd\<lparr>w_content := Some ''hi''\<rparr>) ''alice'')) =
     [(''alice'', NewMessage (sent_message ex_state ex_env (ex_cmd\<lparr>w_content := Some ''hi''\<rparr>) ''alice'')),
      (''bob'', NewMessage (sent_message ex_state ex_env (ex_cmd\<lparr>w_content := Some ''hi''\<rparr>) ''alice''))]"
    using b unfolding l by (simp add: ex_recipients)
  show ?thesis by (intro conjI ex_send_ok ex_live(1) a c)
qed

section \<open>Edit by a non-author\<close>

text \<open>
  C5, as the claim states it, fails: an \<open>edit_message\<close> command from a non-author whose
  content is blank is answered with the validation error, not with the combined
  not-found-or-unauthorized error.
\<close>

theorem edit_blank_content_counterexample:
  "not_editable ex_state
     (ex_cmd\<lparr>w_type := EditMessage, w_messageId := Some ''m1'', w_content := Some ''  ''\<rparr>) ''bob'' \<and>
   session_live ex_state ''bob'' \<and>
   handleEditMessage ex_state ex_env
     (ex_cmd\<lparr>w_type := EditMessage, w_messageId := Some ''m1'', w_content := Some ''  ''\<rparr>) ''bob'' =
     (ex_state, [(''bob'', Error ''Invalid edit request'')]) \<and>
   Error ''Invalid edit request'' \<noteq> Error ''Message not found or unauthorized''"
proof -
  let ?cmd = "ex_cmd\<lparr>w_type := EditMessage, w_messageId := Some ''m1'', w_content := Some ''  ''\<rparr>"
  have n: "not_editable ex_state ?cmd ''bob''"
    by (simp add: not_editable_def ex_window)
  have "handleEditMessage ex_state ex_env ?cmd ''bob'' =
          sendToUser ex_state ''bob'' (Error ''Invalid edit request'')"
    by (simp add: handleEditMessage_unfold falsy_def trim_blank Let_def)
  then have "handleEditMessage ex_state ex_env ?cmd ''bob'' =
          (ex_state, [(''bob'', Error ''Invalid edit request'')])"
    by (simp add: sendToUser_live[OF ex_live(2)])
  then show ?thesis using n ex_live(2) by simp
qed

text \<open>
  C5, amended. An \<open>edit_message\<close> command that names no message of the window, or a
  message of another author, changes neither the window (so neither content, nor
  \<open>edited\<close>, nor \<open>editedAt\<close> of any message) nor the snapshot nor the rows. At most one
  event leaves the actor, addressed to the sender, and exactly one when the sender's
  socket is open and its \<open>send\<close> does not throw: the combined error
  \<open>Message not found or unauthorized\<close> when the command's id and trimmed content are
  non-empty, \<open>Invalid edit request\<close> otherwise. The error depends on the command alone,
  not on which of the two cases holds.
\<close>

theorem edit_rejected:
  assumes "not_editable st msg userId"
  shows "let (st', out) = handleEditMessage st env msg userId in
           messages st' = messages st \<and>
           stored_messages st' = stored_messages st \<and>
           db_rows st' = db_rows st \<and>
           st'\<lparr>sessions := sessions st\<rparr> = st \<and>
           length out \<le> 1 \<and>
           (\<forall>e \<in> set out. e = (userId, edit_rejection msg)) \<and>
           (session_live st userId \<longrightarrow> st' = st \<and> out = [(userId, edit_rejection msg)])"
  unfolding edit_rejected_eq[OF assms] by (rule sendToUser_summary)

theorem edit_rejected_witness:
  "not_editable ex_state
     (ex_cmd\<lparr>w_type := EditMessage, w_messageId := Some ''m1'', w_content := Some ''hacked''\<rparr>) ''bob'' \<and>
   session_live ex_state ''bob'' \<and>
   handleEditMessage ex_state ex_env
     (ex_cmd\<lparr>w_type := EditMessage, w_messageId := Some ''m1'', w_content := Some ''hacked''\<rparr>) ''bob'' =
     (ex_state, [(''bob'', Error ''Message not found or unauthorized'')])"
proof -
  let ?cmd = "ex_cmd\<lparr>w_type := EditMessage, w_messageId := Some ''m1'', w_content := Some ''hacked''\<rparr>"
  have n: "not_editable ex_state ?cmd ''bob''"
    by (simp add: not_editable_def ex_window)
  have e: "edit_rejection ?cmd = Error ''Message not found or unauthorized''"
    by (simp add: edit_rejection_def edit_fields_ok_def falsy_def trim_hacked)
  obtain st' out where r: "handleEditMessage ex_state ex_env ?cmd ''bob'' = (st', out)"
    by (cases "handleEditMessage ex_state ex_env ?cmd ''bob''")
  have "session_live ex_state ''bob'' \<longrightarrow>
          st' = ex_state \<and> out = [(''bob'', edit_rejection ?cmd)]"
    using edit_rejected[OF n, of ex_env] unfolding r Let_def prod.case by blast
  with ex_live(2) e have "(st', out) = (ex_state, [(''bob'', Error ''Message not found or unauthorized'')])"
    by simp
  with n ex_live(2) r show ?thesis by simp
qed

section \<open>Unknown message ids\<close>

text \<open>
  C8, as the claim states it, fails: \<open>reaction_add\<close> and \<open>reaction_remove\<close> with a message
  id that is not in the window return without sending anything.
\<close>

theorem reaction_unknown_id_counterexample:
  "session_live ex_state ''alice'' \<and>
   ''nope'' \<notin> set (map m_id (messages ex_state)) \<and>
   onMessage ex_state ex_env
     (ex_cmd\<lparr>w_type := ReactionAdd, w_messageId := Some ''nope'', w_reaction := Some ''like''\<rparr>)
     ''alice'' = (ex_state, []) \<and>
   onMessage ex_state ex_env
     (ex_cmd\<lparr>w_type := ReactionRemove, w_messageId := Some ''nope'', w_reaction := Some ''like''\<rparr>)
     ''alice'' = (ex_state, [])"
proof -
  have u: "''nope'' \<notin> set (map m_id (messages ex_state))" by (simp add: ex_window)
  have a: "handleReactionAdd ex_state ex_env
     (ex_cmd\<lparr>w_type := ReactionAdd, w_messageId := Some ''nope'', w_reaction := Some ''like''\<rparr>)
     ''alice'' = Inr (ex_state, [])"
    by (rule reaction_add_unknown[OF _ u]) simp
  have b: "handleReactionRemove ex_state ex_env
     (ex_cmd\<lparr>w_type := ReactionRemove, w_messageId := Some ''nope'', w_reaction := Some ''like''\<rparr>)
     ''alice'' = Inr (ex_state, [])"
    by (rule reaction_remove_unknown[OF _ u]) simp
  show ?thesis
    using u a b ex_live(1) by (simp add: onMessage_def handleMessage_def)
qed

text \<open>
  C8, amended. For a command whose message id is not in the window: \<open>edit_message\<close> and
  \<open>delete_message\<close> change nothing and answer the sender with one error event (delivered
  when the sender's socket is open and its \<open>send\<close> does not throw); \<open>reaction_add\<close> and
  \<open>reaction_remove\<close> are ignored, with no event and no change of state.
\<close>

theorem unknown_message_id:
  assumes "w_messageId msg = Some mid" and "mid \<notin> set (map m_id (messages st))"
  shows "(w_type msg = EditMessage \<or> w_type msg = DeleteMessage \<longrightarrow>
            (let (st', out) = onMessage st env msg userId in
               messages st' = messages st \<and>
               stored_messages st' = stored_messages st \<and>
               db_rows st' = db_rows st \<and>
               st'\<lparr>sessions := sessions st\<rparr> = st \<and>
               length out \<le> 1 \<and>
               (\<forall>e \<in> set out. e = (userId, unknown_id_error msg)) \<and>
               (session_live st userId \<longrightarrow> st' = st \<and> out = [(userId, unknown_id_error msg)]))) \<and>
         (w_type msg = ReactionAdd \<or> w_type msg = ReactionRemove \<longrightarrow>
            onMessage st env msg userId = (st, []))"
proof (intro conjI impI)
  assume t: "w_type msg = EditMessage \<or> w_type msg = DeleteMessage"
  have "onMessage st env msg userId = sendToUser st userId (unknown_id_error msg)"
  proof (cases "w_type msg = EditMessage")
    case True
    then show ?thesis
      using edit_rejected_eq[OF not_editable_unknown[OF assms, of userId], of env]
      by (simp add: onMessage_def handleMessage_def unknown_id_error_def)
  next
    case False
    with t have d: "w_type msg = DeleteMessage" by simp
    have "unknown_id_error (msg\<lparr>w_type := DeleteMessage\<rparr>) = unknown_id_error msg"
      using d by (simp add: unknown_id_error_def)
    then show ?thesis
      using delete_unknown_eq[OF assms, of env userId] d
      by (simp add: onMessage_def handleMessage_def)
  qed
  then show "let (st', out) = onMessage st env msg userId in
               messages st' = messages st \<and>
               stored_messages st' = stored_messages st \<and>
               db_rows st' = db_rows st \<and>
               st'\<lparr>sessions := sessions st\<rparr> = st \<and>
               length out \<le> 1 \<and>
               (\<forall>e \<in> set out. e = (userId, unknown_id_error msg)) \<and>
               (session_live st userId \<longrightarrow> st' = st \<and> out = [(userId, unknown_id_error msg)])"
    using sendToUser_summary[of st userId "unknown_id_error msg"] by simp
next
  assume "w_type msg = ReactionAdd \<or> w_type msg = ReactionRemove"
  then show "onMessage st env msg userId = (st, [])"
    using reaction_add_unknown[OF assms, of env userId]
      reaction_remove_unknown[OF assms, of env userId]
    by (auto simp: onMessage_def handleMessage_def)
qed

theorem unknown_message_id_witness:
  "w_messageId (ex_cmd\<lparr>w_type := DeleteMessage, w_messageId := Some ''nope''\<rparr>) = Some ''nope'' \<and>
   ''nope'' \<notin> set (map m_id (messages ex_state)) \<and>
   session_live ex_state ''alice'' \<and>
   onMessage ex_state ex_env (ex_cmd\<lparr>w_type := DeleteMessage, w_messageId := Some ''nope''\<rparr>) ''alice'' =
     (ex_state, [(''alice'', Error ''Message not found or unauthorized'')]) \<and>
   onMessage ex_state ex_env
     (ex_cmd\<lparr>w_type := ReactionAdd, w_messageId := Some ''nope'', w_reaction := Some ''like''\<rparr>)
     ''alice'' = (ex_state, [])"
proof -
  let ?del = "ex_cmd\<lparr>w_type := DeleteMessage, w_messageId := Some ''nope''\<rparr>"
  let ?add = "ex_cmd\<lparr>w_type := ReactionAdd, w_messageId := Some ''nope'', w_reaction := Some ''like''\<rparr>"
  have u: "''nope'' \<notin> set (map m_id (messages ex_state))" by (simp add: ex_window)
  have 1: "w_messageId ?del = Some ''nope''" by simp
  have 2: "w_messageId ?add = Some ''nope''" by simp
  have e: "unknown_id_error ?del = Error ''Message not found or unauthorized''"
    by (simp add: unknown_id_error_def falsy_def)
  have t1: "w_type ?del = EditMessage \<or> w_type ?del = DeleteMessage" by simp
  have t2: "w_type ?add = ReactionAdd \<or> w_type ?add = ReactionRemove" by simp
  obtain st' out where r: "onMessage ex_state ex_env ?del ''alice'' = (st', out)"
    by (cases "onMessage ex_state ex_env ?del ''alice''")
  have "st' = ex_state \<and> out = [(''alice'', unknown_id_error ?del)]"
    using unknown_message_id[OF 1 u, of ex_env "''alice''"] t1 ex_live(1)
    unfolding r Let_def prod.case by blast
  then have "(st', out) = (ex_state, [(''alice'', Error ''Message not found or unauthorized'')])"
    unfolding e by simp
  with r have d: "onMessage ex_state ex_env ?del ''alice'' =
      (ex_state, [(''alice'', Error ''Message not found or unauthorized'')])"
    by (rule trans)
  have a: "onMessage ex_state ex_env ?add ''alice'' = (ex_state, [])"
    using unknown_message_id[OF 2 u, of ex_env "''alice''"] t2 by blast
  show ?thesis by (intro conjI 1 u ex_live(1) d a)
qed

section \<open>Reactions: add then remove\<close>

text \<open>
  C6, as the claim states it, fails: when the user has already reacted with the key, the
  add changes nothing and the remove that follows deletes the earlier reaction, so the
  reaction map is not the one before the add.
\<close>

theorem reaction_roundtrip_counterexample:
  "m_reactions (messages ex_liked ! 0) ''like'' = Some [''bob''] \<and>
   m_reactions
     (messages (run ex_liked [(ex_env, ex_react\<lparr>w_type := ReactionAdd\<rparr>, ''bob''),
                              (ex_env, ex_react\<lparr>w_type := ReactionRemove\<rparr>, ''bob'')]) ! 0)
     ''like'' = None"
proof -
  have m: "messages (run ex_liked [(ex_env, ex_react\<lparr>w_type := ReactionAdd\<rparr>, ''bob''),
                              (ex_env, ex_react\<lparr>w_type := ReactionRemove\<rparr>, ''bob'')]) ! 0 =
          remove_reaction (add_reaction (messages ex_liked ! 0) ''like'' ''bob'') ''like'' ''bob''"
    unfolding add_then_remove_messages[OF ex_react_cmd ex_liked_found]
    by (simp add: ex_liked_def)
  have a: "add_reaction (messages ex_liked ! 0) ''like'' ''bob'' = messages ex_liked ! 0"
    by (simp add: add_reaction_def reactors_def ex_liked_reactions)
  have r: "m_reactions (remove_reaction (messages ex_liked ! 0) ''like'' ''bob'') ''like'' = None"
    by (simp add: remove_reaction_def ex_liked_reactions)
  show ?thesis unfolding m a by (intro conjI ex_liked_reactions r)
qed

text \<open>
  C6, amended. For a message of the window, a reaction key and a user who has not yet
  reacted to the message with that key, \<open>reaction_add\<close> followed at once by
  \<open>reaction_remove\<close> for the same message, key and user leaves the window, and with it
  the message's reaction map, exactly as before, whether or not the snapshot writes
  complete; when the key was absent and names no member that every object inherits, the
  add creates it with the user alone and the remove prunes it again. (No key of a window
  message holds an empty list.) When the user has already reacted with the key, the add
  is a no-op and the remove takes the user out of the key's list.
\<close>

theorem reaction_add_remove_roundtrip:
  assumes "reaction_cmd cmd mid k"
    and "findIndex (\<lambda>m. m_id m = mid) (messages st) = Some i"
  shows "(userId \<notin> set (reactors (messages st ! i) k) \<and>
          m_reactions (messages st ! i) k \<noteq> Some [] \<longrightarrow>
            messages (run st [(e1, cmd\<lparr>w_type := ReactionAdd\<rparr>, userId),
                              (e2, cmd\<lparr>w_type := ReactionRemove\<rparr>, userId)]) = messages st) \<and>
         (m_reactions (messages st ! i) k = None \<and> \<not> inherited_key k \<longrightarrow>
            m_reactions (messages (run st [(e1, cmd\<lparr>w_type := ReactionAdd\<rparr>, userId)]) ! i) k
              = Some [userId] \<and>
            m_reactions (messages (run st [(e1, cmd\<lparr>w_type := ReactionAdd\<rparr>, userId),
                              (e2, cmd\<lparr>w_type := ReactionRemove\<rparr>, userId)]) ! i) k = None) \<and>
         (userId \<in> set (reactors (messages st ! i) k) \<longrightarrow>
            onMessage st e1 (cmd\<lparr>w_type := ReactionAdd\<rparr>) userId = (st, []) \<and>
            userId \<notin> set (reactors
              (messages (run st [(e1, cmd\<lparr>w_type := ReactionAdd\<rparr>, userId),
                                 (e2, cmd\<lparr>w_type := ReactionRemove\<rparr>, userId)]) ! i) k))"
proof (intro conjI impI)
  from findIndex_Some[OF assms(2)] have i: "i < length (messages st)" by simp
  note ar = add_then_remove_messages[OF assms, of e1 userId e2]
  {
    assume h: "userId \<notin> set (reactors (messages st ! i) k) \<and>
               m_reactions (messages st ! i) k \<noteq> Some []"
    then have "remove_reaction (add_reaction (messages st ! i) k userId) k userId = messages st ! i"
      by (simp add: add_remove_reaction)
    then show "messages (run st [(e1, cmd\<lparr>w_type := ReactionAdd\<rparr>, userId),
                              (e2, cmd\<lparr>w_type := ReactionRemove\<rparr>, userId)]) = messages st"
      unfolding ar by simp
  }
  {
    assume nn: "m_reactions (messages st ! i) k = None \<and> \<not> inherited_key k"
    then have n: "m_reactions (messages st ! i) k = None" and ni: "\<not> inherited_key k"
      by simp_all
    from n have u: "userId \<notin> set (reactors (messages st ! i) k)" by (simp add: reactors_def)
    have "messages (run st [(e1, cmd\<lparr>w_type := ReactionAdd\<rparr>, userId)]) ! i =
            add_reaction (messages st ! i) k userId"
      using after_add(2)[OF assms, of e1 userId] by simp
    then show "m_reactions (messages (run st [(e1, cmd\<lparr>w_type := ReactionAdd\<rparr>, userId)]) ! i) k
              = Some [userId]"
      using n ni by (simp add: add_reaction_def reactors_def)
    have "remove_reaction (add_reaction (messages st ! i) k userId) k userId = messages st ! i"
      using u n by (simp add: add_remove_reaction)
    then show "m_reactions (messages (run st [(e1, cmd\<lparr>w_type := ReactionAdd\<rparr>, userId),
                              (e2, cmd\<lparr>w_type := ReactionRemove\<rparr>, userId)]) ! i) k = None"
      unfolding ar using n by simp
  }
  {
    assume m: "userId \<in> set (reactors (messages st ! i) k)"
    show "onMessage st e1 (cmd\<lparr>w_type := ReactionAdd\<rparr>) userId = (st, [])"
      by (rule onMessage_add_noop[OF assms m])
    show "userId \<notin> set (reactors
              (messages (run st [(e1, cmd\<lparr>w_type := ReactionAdd\<rparr>, userId),
                                 (e2, cmd\<lparr>w_type := ReactionRemove\<rparr>, userId)]) ! i) k)"
      unfolding ar using i by (simp add: remove_reaction_gone)
  }
qed

theorem reaction_add_remove_roundtrip_witness:
  "reaction_cmd ex_react ''m1'' ''like'' \<and>
   findIndex (\<lambda>m. m_id m = ''m1'') (messages ex_state) = Some 0 \<and>
   ''alice'' \<notin> set (reactors (messages ex_state ! 0) ''like'') \<and>
   m_reactions (messages ex_state ! 0) ''like'' \<noteq> Some [] \<and>
   messages (run ex_state [(ex_env, ex_react\<lparr>w_type := ReactionAdd\<rparr>, ''alice''),
                           (ex_env, ex_react\<lparr>w_type := ReactionRemove\<rparr>, ''alice'')]) =
     messages ex_state \<and>
   m_reactions (messages (run ex_state [(ex_env, ex_react\<lparr>w_type := ReactionAdd\<rparr>, ''alice'')]) ! 0)
     ''like'' = Some [''alice'']"
proof -
  have a: "''alice'' \<notin> set (reactors (messages ex_state ! 0) ''like'')"
    by (simp add: ex_reactors)
  have b: "m_reactions (messages ex_state ! 0) ''like'' \<noteq> Some []"
    by (simp add: ex_reactors)
  note t = reaction_add_remove_roundtrip[OF ex_react_cmd ex_found, of "''alice''" ex_env ex_env]
  have c: "messages (run ex_state [(ex_env, ex_react\<lparr>w_type := ReactionAdd\<rparr>, ''alice''),
                           (ex_env, ex_react\<lparr>w_type := ReactionRemove\<rparr>, ''alice'')]) =
     messages ex_state"
    using t a b by blast
  have d: "m_reactions (messages (run ex_state [(ex_env, ex_react\<lparr>w_type := ReactionAdd\<rparr>, ''alice'')]) ! 0)
     ''like'' = Some [''alice'']"
    using t ex_reactors(2) ex_constructor(2) by blast
  show ?thesis by (intro conjI ex_react_cmd ex_found a b c d)
qed

section \<open>Reactions: add is idempotent\<close>

text \<open>
  C7. After a \<open>reaction_add\<close> the list of the key should hold the user exactly once. For
  the key \<open>constructor\<close>, which the reaction map of a message inherits from
  \<open>Object.prototype\<close>, \<open>handleReactionAdd\<close> creates no list, throws at \<open>includes\<close> and
  records nothing: the sender is answered \<open>Invalid message format\<close>, the state is
  unchanged and the user is not among the reactors of the key.
\<close>

theorem reaction_add_inherited_key:
  "onMessage ex_state ex_env
     (ex_react\<lparr>w_type := ReactionAdd, w_reaction := Some ''constructor''\<rparr>) ''alice'' =
     (ex_state, [(''alice'', Error ''Invalid message format'')]) \<and>
   count_list (reactors (messages ex_state ! 0) ''constructor'') ''alice'' = 0"
proof -
  let ?cmd = "ex_react\<lparr>w_type := ReactionAdd, w_reaction := Some ''constructor''\<rparr>"
  have c: "reaction_cmd ?cmd ''m1'' ''constructor''"
    by (simp add: reaction_cmd_def ex_react_def)
  have n: "\<not> key_usable (messages ex_state ! 0) ''constructor''"
    by (simp add: key_usable_def ex_constructor ex_window ex_message_def)
  have "handleMessage ex_state ex_env ?cmd ''alice'' = Inl (TypeError, (ex_state, []))"
    using handleReactionAdd_inherited[OF c ex_found n, of ex_env "''alice''"]
    by (simp add: handleMessage_def)
  then have a: "onMessage ex_state ex_env ?cmd ''alice'' =
     (ex_state, [(''alice'', Error ''Invalid message format'')])"
    by (simp add: onMessage_def sendToUser_live[OF ex_live(1)])
  have b: "count_list (reactors (messages ex_state ! 0) ''constructor'') ''alice'' = 0"
    by (simp add: reactors_def ex_window ex_message_def)
  show ?thesis by (intro conjI a b)
qed

section \<open>Delete\<close>

text \<open>
  C3. A \<open>delete_message\<close> command of the author should splice the message out of the
  window. With a window \<open>c0, c1, c2\<close> of one author and three \<open>delete_message\<close> frames
  that arrive before the first \<open>UPDATE\<close> returns, each handler splices at the index it
  found on arrival, 0, 1 and 2: the window and the snapshot are left holding \<open>c1\<close>,
  though the rows of all three messages are marked deleted and \<open>message_deleted\<close> went
  out for each of them.
\<close>

theorem delete_overlapping_frames:
  "map m_id (messages ex_three) = [''c0'', ''c1'', ''c2''] \<and>
   map m_userId (messages ex_three) = [''alice'', ''alice'', ''alice''] \<and>
   map m_id (messages (fst (exec (ex_three, [], []) ex_overlap))) = [''c1''] \<and>
   map_option (map m_id) (stored_messages (fst (exec (ex_three, [], []) ex_overlap))) =
     Some [''c1''] \<and>
   map (\<lambda>r. (r_id r, r_deleted r)) (db_rows (fst (exec (ex_three, [], []) ex_overlap))) =
     [(''c0'', True), (''c1'', True), (''c2'', True)] \<and>
   deleted_events (snd (snd (exec (ex_three, [], []) ex_overlap))) =
     [(''alice'', ''c0''), (''bob'', ''c0''), (''alice'', ''c1''), (''bob'', ''c1''),
      (''alice'', ''c2''), (''bob'', ''c2'')]"
  by (intro conjI; code_simp)

section \<open>History fetch\<close>

text \<open>
  C4, as the claim states it, fails: with \<open>limit=-1\<close> the fetch returns the three rows
  that match, more than the requested limit.
\<close>

theorem history_negative_limit_counterexample:
  "map m_id (getMessages (ex_state\<lparr>db_rows := ex_rows\<rparr>) True (Some (Num (- 1))) None) =
     [''m1'', ''m3'', ''m4''] \<and>
   \<not> int (length (getMessages (ex_state\<lparr>db_rows := ex_rows\<rparr>) True (Some (Num (- 1))) None))
       \<le> - 1"
proof -
  have "length (map m_id (getMessages (ex_state\<lparr>db_rows := ex_rows\<rparr>) True (Some (Num (- 1))) None)) = 3"
    unfolding ex_fetch_negative by simp
  then have "\<not> int (length (getMessages (ex_state\<lparr>db_rows := ex_rows\<rparr>) True (Some (Num (- 1))) None))
       \<le> - 1" by simp
  then show ?thesis using ex_fetch_negative by blast
qed

text \<open>
  C4, amended. Every message that a history fetch returns comes from a row that is not
  marked deleted and belongs to the actor's channel, and its timestamp is strictly below
  \<open>before\<close> when that parameter is given and not empty; a limit that is not negative
  bounds the number of messages returned; with a negative limit that the store accepts,
  every matching row is returned; with a limit that the store rejects, none is; and the
  messages are in ascending order of timestamp.
\<close>

theorem history_fetch:
  "let ms = getMessages st query_ok limit_param before;
       limit = (case limit_param of None \<Rightarrow> Num 50 | Some n \<Rightarrow> n) in
     (\<forall>m \<in> set ms.
        \<not> m_deleted m \<and> m_channelId m = channelId st \<and>
        (\<exists>r \<in> set (db_rows st). \<not> r_deleted r \<and> r_channelId r = channelId st \<and>
            r_id r = m_id m \<and> r_timestamp r = m_timestamp m) \<and>
        (\<forall>b. before = Some b \<and> b \<noteq> [] \<longrightarrow> m_timestamp m < b)) \<and>
     (\<forall>n. limit = Num n \<and> 0 \<le> n \<longrightarrow> length ms \<le> nat n) \<and>
     (\<forall>n. limit = Num n \<and> - (2 ^ 63) \<le> n \<and> n < 0 \<and> query_ok \<longrightarrow>
          length ms = length (matching_rows st before)) \<and>
     (\<not> limit_accepted limit \<longrightarrow> ms = []) \<and>
     sorted (map m_timestamp ms)"
proof (cases "query_ok \<and> limit_accepted (case limit_param of None \<Rightarrow> Num 50 | Some n \<Rightarrow> n)")
  case False
  then have "getMessages st query_ok limit_param before = []"
    by (auto simp: getMessages_def Let_def)
  then show ?thesis
    using False by (auto simp: Let_def limit_accepted_def)
next
  case True
  define limit where "limit = (case limit_param of None \<Rightarrow> Num 50 | Some n \<Rightarrow> n)"
  from True have acc: "limit_accepted limit" and q: query_ok by (simp_all add: limit_def)
  then obtain lim where lim: "limit = Num lim" and rng: "- (2 ^ 63) \<le> lim" "lim < 2 ^ 63"
    by (cases limit) (simp_all add: limit_accepted_def)
  define rs where "rs = select_messages (db_rows st) (channelId st) (or_null before) lim"
  have ms: "getMessages st query_ok limit_param before = map (row_to_message st) (rev rs)"
    using q acc lim by (simp add: getMessages_def Let_def rs_def limit_def[symmetric] limit_value_def)
  have 1: "\<forall>m \<in> set (map (row_to_message st) (rev rs)).
        \<not> m_deleted m \<and> m_channelId m = channelId st \<and>
        (\<exists>r \<in> set (db_rows st). \<not> r_deleted r \<and> r_channelId r = channelId st \<and>
            r_id r = m_id m \<and> r_timestamp r = m_timestamp m) \<and>
        (\<forall>b. before = Some b \<and> b \<noteq> [] \<longrightarrow> m_timestamp m < b)"
  proof
    fix m assume "m \<in> set (map (row_to_message st) (rev rs))"
    then obtain r where r: "r \<in> set rs" and m: "m = row_to_message st r" by auto
    note s = select_messages_set[OF r[unfolded rs_def]]
    have b: "\<forall>b. before = Some b \<and> b \<noteq> [] \<longrightarrow> r_timestamp r < b"
      using s by (auto simp: or_null_def falsy_def)
    show "\<not> m_deleted m \<and> m_channelId m = channelId st \<and>
        (\<exists>r \<in> set (db_rows st). \<not> r_deleted r \<and> r_channelId r = channelId st \<and>
            r_id r = m_id m \<and> r_timestamp r = m_timestamp m) \<and>
        (\<forall>b. before = Some b \<and> b \<noteq> [] \<longrightarrow> m_timestamp m < b)"
      unfolding m row_to_message_fields using s b by blast
  qed
  have 2: "\<forall>n. limit = Num n \<and> 0 \<le> n \<longrightarrow> length (map (row_to_message st) (rev rs)) \<le> nat n"
    using lim by (simp add: rs_def select_messages_length)
  have 3: "\<forall>n. limit = Num n \<and> - (2 ^ 63) \<le> n \<and> n < 0 \<and> query_ok \<longrightarrow>
          length (map (row_to_message st) (rev rs)) = length (matching_rows st before)"
    using lim by (simp add: rs_def select_messages_unbounded matching_rows_def)
  have 4: "\<not> limit_accepted limit \<longrightarrow> map (row_to_message st) (rev rs) = []"
    using acc by simp
  have "map m_timestamp (map (row_to_message st) (rev rs)) = map r_timestamp (rev rs)"
    by (simp add: row_to_message_fields o_def)
  then have 5: "sorted (map m_timestamp (map (row_to_message st) (rev rs)))"
    using select_messages_sorted[of "db_rows st" "channelId st" "or_null before" lim]
    by (simp only: rs_def)
  show ?thesis
    unfolding ms Let_def limit_def[symmetric] using 1 2 3 4 5 by blast
qed

theorem history_fetch_witness:
  "map m_id (getMessages (ex_state\<lparr>db_rows := ex_rows\<rparr>) True (Some (Num 2)) (Some ''2024-01-04'')) =
     [''m1'', ''m3''] \<and>
   length (getMessages (ex_state\<lparr>db_rows := ex_rows\<rparr>) True (Some (Num 2)) (Some ''2024-01-04'')) \<le> 2 \<and>
   sorted (map m_timestamp
     (getMessages (ex_state\<lparr>db_rows := ex_rows\<rparr>) True (Some (Num 2)) (Some ''2024-01-04''))) \<and>
   length (getMessages (ex_state\<lparr>db_rows := ex_rows\<rparr>) True (Some (Num (- 1))) None) =
     length (matching_rows (ex_state\<lparr>db_rows := ex_rows\<rparr>) None) \<and>
   getMessages (ex_state\<lparr>db_rows := ex_rows\<rparr>) True (Some NaN) None = []"
proof -
  note t = history_fetch[of "ex_state\<lparr>db_rows := ex_rows\<rparr>" True "Some (Num 2)" "Some ''2024-01-04''"]
  have a: "length (getMessages (ex_state\<lparr>db_rows := ex_rows\<rparr>) True (Some (Num 2)) (Some ''2024-01-04''))
             \<le> nat 2"
    using t unfolding Let_def by simp
  have b: "sorted (map m_timestamp
     (getMessages (ex_state\<lparr>db_rows := ex_rows\<rparr>) True (Some (Num 2)) (Some ''2024-01-04'')))"
    using t unfolding Let_def by blast
  from a have a': "length (getMessages (ex_state\<lparr>db_rows := ex_rows\<rparr>) True (Some (Num 2)) (Some ''2024-01-04''))
             \<le> 2" by simp
  have c: "length (getMessages (ex_state\<lparr>db_rows := ex_rows\<rparr>) True (Some (Num (- 1))) None) =
     length (matching_rows (ex_state\<lparr>db_rows := ex_rows\<rparr>) None)"
    using history_fetch[of "ex_state\<lparr>db_rows := ex_rows\<rparr>" True "Some (Num (- 1))" None]
    unfolding Let_def by simp
  have d: "getMessages (ex_state\<lparr>db_rows := ex_rows\<rparr>) True (Some NaN) None = []"
    using history_fetch[of "ex_state\<lparr>db_rows := ex_rows\<rparr>" True "Some NaN" None]
    unfolding Let_def by (simp add: limit_accepted_def)
  show ?thesis by (intro conjI ex_fetch_ids a' b c d)
qed

end
